theory Spec2Isabelle
  imports Complex_Main "HOL-Library.Sublist" "HOL-Library.Log_Nat"
begin

section \<open>JavaScript numbers\<close>

text \<open>
  The annotation engine computes with JavaScript numbers, which are IEEE-754 binary64
  values. A number is modelled as a real (a finite value) or one of the three non-finite
  values the code tests for with \<^verbatim>\<open>isFinite\<close>. Addition, subtraction, multiplication and
  division of finite values compute the exact real result and round it to binary64
  (\<open>b64\<close> below): to the nearest representable value, a tie going to the even
  significand, with gradual underflow and with overflow to infinity. Negation,
  \<^verbatim>\<open>Math.abs\<close>, \<^verbatim>\<open>Math.min\<close>, \<^verbatim>\<open>Math.max\<close> and \<^verbatim>\<open>Math.round\<close> are exact in binary64.
  The sign of zero is not modelled: a zero divisor is taken as \<open>+0\<close>, which is what
  \<^verbatim>\<open>getBoundingClientRect\<close> reports for a box that has not been laid out.
\<close>

datatype jsnum = Fin real | PosInf | NegInf | NaN

fun isFinite :: "jsnum \<Rightarrow> bool" where
  "isFinite (Fin r) = True"
| "isFinite v = False"

text \<open>
  Rounding to binary64. For \<open>x > 0\<close>, \<open>ilog2 x\<close> is the exponent \<open>L\<close> with
  \<open>2^L \<le> x < 2^(L+1)\<close>, computed from the bit length of an integer. A binary64 value
  has a significand of 53 bits and a least exponent of -1074, so the values next to \<open>x\<close>
  are the multiples of \<open>2^e\<close> with \<open>e = max (L - 52) (-1074)\<close>; \<open>x\<close> is rounded to the
  nearest of them, a tie going to the even multiple, and a result of magnitude \<open>2^1024\<close>
  or more is an infinity.
\<close>

definition ilog2 :: "real \<Rightarrow> int" where
  "ilog2 x = (if 1 \<le> x then bitlen \<lfloor>x\<rfloor> - 1 else - bitlen (\<lceil>1 / x\<rceil> - 1))"

definition round_even :: "real \<Rightarrow> int" where
  "round_even q =
     (let f = \<lfloor>q\<rfloor>; d = q - of_int f
      in if d < 1 / 2 then f else if 1 / 2 < d then f + 1 else if even f then f else f + 1)"

definition b64_exp :: "real \<Rightarrow> int" where
  "b64_exp x = max (ilog2 \<bar>x\<bar> - 52) (- 1074)"

definition b64 :: "real \<Rightarrow> jsnum" where
  "b64 x =
     (if x = 0 then Fin 0
      else
        (let e = b64_exp x;
             y = of_int (round_even (x / 2 powi e)) * 2 powi e
         in if 2 ^ 1024 \<le> y then PosInf
            else if y \<le> - (2 ^ 1024) then NegInf
            else Fin y))"

text \<open>The sign of a number that is not NaN, as -1, 0 or 1.\<close>

fun js_sign :: "jsnum \<Rightarrow> int" where
  "js_sign (Fin r) = (if r < 0 then -1 else if r = 0 then 0 else 1)"
| "js_sign PosInf = 1"
| "js_sign NegInf = -1"
| "js_sign NaN = 0"

definition js_inf :: "int \<Rightarrow> jsnum" where
  "js_inf s = (if s = 0 then NaN else if 0 < s then PosInf else NegInf)"

fun js_neg :: "jsnum \<Rightarrow> jsnum" where
  "js_neg (Fin r) = Fin (- r)"
| "js_neg PosInf = NegInf"
| "js_neg NegInf = PosInf"
| "js_neg NaN = NaN"

fun js_add :: "jsnum \<Rightarrow> jsnum \<Rightarrow> jsnum" where
  "js_add (Fin a) (Fin b) = b64 (a + b)"
| "js_add NaN v = NaN"
| "js_add v NaN = NaN"
| "js_add PosInf NegInf = NaN"
| "js_add NegInf PosInf = NaN"
| "js_add PosInf v = PosInf"
| "js_add NegInf v = NegInf"
| "js_add v PosInf = PosInf"
| "js_add v NegInf = NegInf"

definition js_sub :: "jsnum \<Rightarrow> jsnum \<Rightarrow> jsnum" where
  "js_sub a b = js_add a (js_neg b)"

fun js_mul :: "jsnum \<Rightarrow> jsnum \<Rightarrow> jsnum" where
  "js_mul (Fin a) (Fin b) = b64 (a * b)"
| "js_mul NaN v = NaN"
| "js_mul v NaN = NaN"
| "js_mul a b = js_inf (js_sign a * js_sign b)"

fun js_div :: "jsnum \<Rightarrow> jsnum \<Rightarrow> jsnum" where
  "js_div NaN v = NaN"
| "js_div v NaN = NaN"
| "js_div (Fin a) (Fin b) = (if b = 0 then js_inf (js_sign (Fin a)) else b64 (a / b))"
| "js_div (Fin a) v = Fin 0"
| "js_div a (Fin b) = js_inf (js_sign a * (if b < 0 then -1 else 1))"
| "js_div a b = NaN"

text \<open>Comparison: every comparison with NaN is false.\<close>

fun js_lt :: "jsnum \<Rightarrow> jsnum \<Rightarrow> bool" where
  "js_lt NaN v = False"
| "js_lt v NaN = False"
| "js_lt (Fin a) (Fin b) = (a < b)"
| "js_lt NegInf NegInf = False"
| "js_lt NegInf v = True"
| "js_lt v PosInf = (v \<noteq> PosInf)"
| "js_lt v w = False"

definition js_gt :: "jsnum \<Rightarrow> jsnum \<Rightarrow> bool" where
  "js_gt a b = js_lt b a"

text \<open>\<^verbatim>\<open>Math.min\<close>, \<^verbatim>\<open>Math.max\<close>, \<^verbatim>\<open>Math.abs\<close> and \<^verbatim>\<open>Math.round\<close> (nearest integer, a tie
  going up).\<close>

definition Math_min :: "jsnum \<Rightarrow> jsnum \<Rightarrow> jsnum" where
  "Math_min a b = (if a = NaN \<or> b = NaN then NaN else if js_lt b a then b else a)"

definition Math_max :: "jsnum \<Rightarrow> jsnum \<Rightarrow> jsnum" where
  "Math_max a b = (if a = NaN \<or> b = NaN then NaN else if js_lt a b then b else a)"

fun Math_abs :: "jsnum \<Rightarrow> jsnum" where
  "Math_abs (Fin r) = Fin \<bar>r\<bar>"
| "Math_abs PosInf = PosInf"
| "Math_abs NegInf = PosInf"
| "Math_abs NaN = NaN"

fun Math_round :: "jsnum \<Rightarrow> jsnum" where
  "Math_round (Fin r) = Fin (of_int \<lfloor>r + 1 / 2\<rfloor>)"
| "Math_round v = v"

section \<open>Pixels and points\<close>

text \<open>
  \<^verbatim>\<open>const DOCUSIGN_DPI = 72; const UI_DPI = 96;\<close>
  \<^verbatim>\<open>pixelsToPoints = (pixels) => { if (!isFinite(pixels) || pixels < 0) return 0;
     return Math.max(0, Math.round((pixels * DOCUSIGN_DPI) / UI_DPI)); }\<close>
  and \<^verbatim>\<open>pointsToPixels\<close> with the two constants exchanged.
\<close>

definition DOCUSIGN_DPI :: jsnum where
  "DOCUSIGN_DPI = Fin 72"

definition UI_DPI :: jsnum where
  "UI_DPI = Fin 96"

definition pixelsToPoints :: "jsnum \<Rightarrow> jsnum" where
  "pixelsToPoints pixels =
     (if \<not> isFinite pixels \<or> js_lt pixels (Fin 0) then Fin 0
      else Math_max (Fin 0) (Math_round (js_div (js_mul pixels DOCUSIGN_DPI) UI_DPI)))"


section \<open>Data of the annotation engine\<close>

text \<open>
  The objects of the source, as records. A position is \<^verbatim>\<open>{x, y}\<close>, the rectangle being
  dragged is \<^verbatim>\<open>{x1, y1, x2, y2}\<close>, \<^verbatim>\<open>getTopLeftCoordinates\<close> returns
  \<^verbatim>\<open>{x, y, width, height}\<close>, and a committed rectangle spreads that object and adds
  \<^verbatim>\<open>pageNum\<close> and \<^verbatim>\<open>id\<close> (the variant with DocuSign points adds four more fields).
  Page numbers and the readings of \<^verbatim>\<open>Date.now()\<close> are integers.
\<close>

record point =
  pos_x :: jsnum
  pos_y :: jsnum

record drag_rect =
  cr_x1 :: jsnum
  cr_y1 :: jsnum
  cr_x2 :: jsnum
  cr_y2 :: jsnum

record coords =
  r_x :: jsnum
  r_y :: jsnum
  r_width :: jsnum
  r_height :: jsnum

record rectangle = coords +
  r_pageNum :: int
  r_id :: int

record rectangle_pts = rectangle +
  r_xPoints :: jsnum
  r_yPoints :: jsnum
  r_widthPoints :: jsnum
  r_heightPoints :: jsnum

record signaturePoint =
  sp_x :: jsnum
  sp_y :: jsnum
  sp_xPoints :: jsnum
  sp_yPoints :: jsnum
  sp_pageNum :: int
  sp_id :: int

text \<open>
  What a handler reads from the browser: the overlay canvas behind \<^verbatim>\<open>canvasRef.current\<close>
  (\<open>None\<close> when the ref is null), with its pixel size \<^verbatim>\<open>canvas.width\<close>,
  \<^verbatim>\<open>canvas.height\<close> and the box \<^verbatim>\<open>canvas.getBoundingClientRect()\<close>; and the mouse event.
\<close>

record canvas =
  canvas_width :: jsnum
  canvas_height :: jsnum
  rect_left :: jsnum
  rect_top :: jsnum
  rect_width :: jsnum
  rect_height :: jsnum

record mouse_event =
  clientX :: jsnum
  clientY :: jsnum

text \<open>
  The state of the rectangle variants: the React state \<^verbatim>\<open>currentPage\<close>, \<^verbatim>\<open>totalPages\<close>,
  \<^verbatim>\<open>rectangles\<close> and the drawing state \<^verbatim>\<open>currentRect\<close>, \<^verbatim>\<open>isDrawing\<close>, \<^verbatim>\<open>startPos\<close>
  (React state in the plain variant, the fields of \<^verbatim>\<open>drawingStateRef.current\<close> in the
  variant with DocuSign points). Each handler runs on the state of the latest render.
\<close>

record 'r app_state =
  currentPage :: int
  totalPages :: int
  rectangles :: "'r list"
  currentRect :: "drag_rect option"
  isDrawing :: bool
  startPos :: "point option"

definition initial_state :: "'r app_state" where
  "initial_state =
     \<lparr>currentPage = 1, totalPages = 0, rectangles = [], currentRect = None,
      isDrawing = False, startPos = None\<rparr>"

section \<open>The plain rectangle variant\<close>

text \<open>
  \<^verbatim>\<open>getTopLeftCoordinates = (x1, y1, x2, y2) => { minX = Math.min(x1, x2); ...
     width = Math.abs(x2 - x1); ...
     return { x: Math.round(minX), y: Math.round(minY),
              width: Math.round(width), height: Math.round(height) } }\<close>
\<close>

definition getTopLeftCoordinates :: "jsnum \<Rightarrow> jsnum \<Rightarrow> jsnum \<Rightarrow> jsnum \<Rightarrow> coords" where
  "getTopLeftCoordinates x1 y1 x2 y2 =
     (let minX = Math_min x1 x2;
          minY = Math_min y1 y2;
          width = Math_abs (js_sub x2 x1);
          height = Math_abs (js_sub y2 y1)
      in \<lparr>r_x = Math_round minX, r_y = Math_round minY,
          r_width = Math_round width, r_height = Math_round height\<rparr>)"

text \<open>
  \<^verbatim>\<open>getCanvasCoordinates\<close> of the plain variant: null only without a canvas; the scale
  factors are computed with no check on the box.
\<close>

definition getCanvasCoordinates :: "canvas option \<Rightarrow> mouse_event \<Rightarrow> point option" where
  "getCanvasCoordinates canvasRef e =
     (case canvasRef of
        None \<Rightarrow> None
      | Some cv \<Rightarrow>
          (let scaleX = js_div (canvas_width cv) (rect_width cv);
               scaleY = js_div (canvas_height cv) (rect_height cv)
           in Some \<lparr>pos_x = js_mul (js_sub (clientX e) (rect_left cv)) scaleX,
                    pos_y = js_mul (js_sub (clientY e) (rect_top cv)) scaleY\<rparr>))"

definition goToPage :: "int \<Rightarrow> 'r app_state \<Rightarrow> 'r app_state" where
  "goToPage pageNum st =
     (if pageNum \<ge> 1 \<and> pageNum \<le> totalPages st
      then st\<lparr>currentPage := pageNum, currentRect := None\<rparr>
      else st)"

definition handleMouseDown :: "canvas option \<Rightarrow> mouse_event \<Rightarrow> 'r app_state \<Rightarrow> 'r app_state" where
  "handleMouseDown canvasRef e st =
     (case getCanvasCoordinates canvasRef e of
        None \<Rightarrow> st
      | Some pos \<Rightarrow>
          st\<lparr>isDrawing := True, startPos := Some pos,
             currentRect := Some \<lparr>cr_x1 = pos_x pos, cr_y1 = pos_y pos,
                                  cr_x2 = pos_x pos, cr_y2 = pos_y pos\<rparr>\<rparr>)"

definition handleMouseMove :: "canvas option \<Rightarrow> mouse_event \<Rightarrow> 'r app_state \<Rightarrow> 'r app_state" where
  "handleMouseMove canvasRef e st =
     (if \<not> isDrawing st then st
      else case startPos st of
        None \<Rightarrow> st
      | Some sp \<Rightarrow>
          (case getCanvasCoordinates canvasRef e of
             None \<Rightarrow> st
           | Some pos \<Rightarrow>
               st\<lparr>currentRect := Some \<lparr>cr_x1 = pos_x sp, cr_y1 = pos_y sp,
                                       cr_x2 = pos_x pos, cr_y2 = pos_y pos\<rparr>\<rparr>))"

text \<open>
  \<^verbatim>\<open>handleMouseUp\<close>: the position of the release is computed and tested for null only;
  the rectangle comes from \<^verbatim>\<open>currentRect\<close>. The reading of \<^verbatim>\<open>Date.now()\<close> is the
  argument \<open>now\<close>.
\<close>

definition handleMouseUp ::
  "canvas option \<Rightarrow> mouse_event \<Rightarrow> int \<Rightarrow> rectangle app_state \<Rightarrow> rectangle app_state" where
  "handleMouseUp canvasRef e now st =
     (if \<not> isDrawing st then st
      else case startPos st of
        None \<Rightarrow> st
      | Some sp \<Rightarrow>
          (case getCanvasCoordinates canvasRef e of
             None \<Rightarrow> st
           | Some pos \<Rightarrow>
               (case currentRect st of
                  None \<Rightarrow> st
                | Some cr \<Rightarrow>
                    (let c = getTopLeftCoordinates (cr_x1 cr) (cr_y1 cr) (cr_x2 cr) (cr_y2 cr);
                         newRect = \<lparr>r_x = r_x c, r_y = r_y c, r_width = r_width c,
                                    r_height = r_height c,
                                    r_pageNum = currentPage st, r_id = now\<rparr>;
                         st' = (if js_gt (r_width c) (Fin 5) \<and> js_gt (r_height c) (Fin 5)
                                then st\<lparr>rectangles := rectangles st @ [newRect]\<rparr>
                                else st)
                     in st'\<lparr>isDrawing := False, startPos := None, currentRect := None\<rparr>))))"

text \<open>The inline \<^verbatim>\<open>onMouseLeave\<close> handler of the canvas.\<close>

definition handleMouseLeave :: "'r app_state \<Rightarrow> 'r app_state" where
  "handleMouseLeave st = st\<lparr>isDrawing := False, currentRect := None\<rparr>"

definition handleDeleteRect :: "int \<Rightarrow> ('a rectangle_scheme) app_state \<Rightarrow> ('a rectangle_scheme) app_state" where
  "handleDeleteRect ident st =
     st\<lparr>rectangles := filter (\<lambda>rect. r_id rect \<noteq> ident) (rectangles st)\<rparr>"

definition handleClearPage :: "('a rectangle_scheme) app_state \<Rightarrow> ('a rectangle_scheme) app_state" where
  "handleClearPage st =
     st\<lparr>rectangles := filter (\<lambda>rect. r_pageNum rect \<noteq> currentPage st) (rectangles st)\<rparr>"

text \<open>
  \<^verbatim>\<open>handleFileUpload\<close> on the path where the document loads, with \<open>numPages\<close> the page
  count of the loaded document.
\<close>

definition handleFileUpload :: "int \<Rightarrow> 'r app_state \<Rightarrow> 'r app_state" where
  "handleFileUpload numPages st =
     st\<lparr>totalPages := numPages, currentPage := 1, rectangles := []\<rparr>"

text \<open>A session of the plain variant is a sequence of events, each handled in turn.\<close>

datatype event =
    MouseDown "canvas option" mouse_event
  | MouseMove "canvas option" mouse_event
  | MouseUp "canvas option" mouse_event int
  | MouseLeave
  | GoToPage int
  | DeleteRect int
  | ClearPage
  | FileUpload int

fun step :: "event \<Rightarrow> rectangle app_state \<Rightarrow> rectangle app_state" where
  "step (MouseDown cv e) st = handleMouseDown cv e st"
| "step (MouseMove cv e) st = handleMouseMove cv e st"
| "step (MouseUp cv e now) st = handleMouseUp cv e now st"
| "step MouseLeave st = handleMouseLeave st"
| "step (GoToPage n) st = goToPage n st"
| "step (DeleteRect i) st = handleDeleteRect i st"
| "step ClearPage st = handleClearPage st"
| "step (FileUpload n) st = handleFileUpload n st"

definition run :: "event list \<Rightarrow> rectangle app_state \<Rightarrow> rectangle app_state" where
  "run evs st = fold step evs st"

text \<open>The readings of the clock in a session, in the order of the events that take one.\<close>

fun clock :: "event list \<Rightarrow> int list" where
  "clock [] = []"
| "clock (MouseUp cv e now # evs) = now # clock evs"
| "clock (ev # evs) = clock evs"

section \<open>The rectangle variant with DocuSign points\<close>

text \<open>
  In this variant \<^verbatim>\<open>getCanvasCoordinates\<close> checks the box, the scale factors and the
  coordinates, and returns null when a check fails. The \<^verbatim>\<open>try\<close> around it catches
  nothing here: every field read is a number.
\<close>

definition getCanvasCoordinates_ref :: "canvas option \<Rightarrow> mouse_event \<Rightarrow> point option" where
  "getCanvasCoordinates_ref canvasRef e =
     (case canvasRef of
        None \<Rightarrow> None
      | Some cv \<Rightarrow>
          if rect_width cv = Fin 0 \<or> rect_height cv = Fin 0 then None
          else
            (let scaleX = js_div (canvas_width cv) (rect_width cv);
                 scaleY = js_div (canvas_height cv) (rect_height cv)
             in if \<not> isFinite scaleX \<or> \<not> isFinite scaleY then None
                else
                  (let x = js_mul (js_sub (clientX e) (rect_left cv)) scaleX;
                       y = js_mul (js_sub (clientY e) (rect_top cv)) scaleY
                   in if \<not> isFinite x \<or> \<not> isFinite y then None
                      else Some \<lparr>pos_x = x, pos_y = y\<rparr>)))"

text \<open>
  \<^verbatim>\<open>goToPage\<close> of this variant calls \<^verbatim>\<open>setCurrentPage(pageNum)\<close> and then
  \<^verbatim>\<open>setCurrentRect(null)\<close>, a setter this variant does not declare: the call raises a
  ReferenceError after the page update has been queued, and \<^verbatim>\<open>drawingStateRef\<close> is not
  touched. The result is the new state and the error raised, if any.
\<close>

datatype js_error = ReferenceError

definition goToPage_ref :: "int \<Rightarrow> 'r app_state \<Rightarrow> 'r app_state \<times> js_error option" where
  "goToPage_ref pageNum st =
     (if pageNum \<ge> 1 \<and> pageNum \<le> totalPages st
      then (st\<lparr>currentPage := pageNum\<rparr>, Some ReferenceError)
      else (st, None))"

definition handleMouseDown_ref :: "canvas option \<Rightarrow> mouse_event \<Rightarrow> 'r app_state \<Rightarrow> 'r app_state" where
  "handleMouseDown_ref canvasRef e st =
     (case getCanvasCoordinates_ref canvasRef e of
        None \<Rightarrow> st
      | Some pos \<Rightarrow>
          st\<lparr>isDrawing := True, startPos := Some pos,
             currentRect := Some \<lparr>cr_x1 = pos_x pos, cr_y1 = pos_y pos,
                                  cr_x2 = pos_x pos, cr_y2 = pos_y pos\<rparr>\<rparr>)"

definition handleMouseMove_ref :: "canvas option \<Rightarrow> mouse_event \<Rightarrow> 'r app_state \<Rightarrow> 'r app_state" where
  "handleMouseMove_ref canvasRef e st =
     (if \<not> isDrawing st then st
      else case startPos st of
        None \<Rightarrow> st
      | Some sp \<Rightarrow>
          (case getCanvasCoordinates_ref canvasRef e of
             None \<Rightarrow> st
           | Some pos \<Rightarrow>
               st\<lparr>currentRect := Some \<lparr>cr_x1 = pos_x sp, cr_y1 = pos_y sp,
                                       cr_x2 = pos_x pos, cr_y2 = pos_y pos\<rparr>\<rparr>))"

definition handleMouseUp_ref ::
  "canvas option \<Rightarrow> mouse_event \<Rightarrow> int \<Rightarrow> rectangle_pts app_state \<Rightarrow> rectangle_pts app_state" where
  "handleMouseUp_ref canvasRef e now st =
     (if \<not> isDrawing st then st
      else case startPos st of
        None \<Rightarrow> st
      | Some sp \<Rightarrow>
          (case getCanvasCoordinates_ref canvasRef e of
             None \<Rightarrow> st
           | Some pos \<Rightarrow>
               (case currentRect st of
                  None \<Rightarrow> st
                | Some cr \<Rightarrow>
                    (let c = getTopLeftCoordinates (cr_x1 cr) (cr_y1 cr) (cr_x2 cr) (cr_y2 cr);
                         newRect = \<lparr>r_x = r_x c, r_y = r_y c, r_width = r_width c,
                                    r_height = r_height c,
                                    r_pageNum = currentPage st, r_id = now,
                                    r_xPoints = pixelsToPoints (r_x c),
                                    r_yPoints = pixelsToPoints (r_y c),
                                    r_widthPoints = pixelsToPoints (r_width c),
                                    r_heightPoints = pixelsToPoints (r_height c)\<rparr>;
                         st' = (if js_gt (r_width c) (Fin 5) \<and> js_gt (r_height c) (Fin 5)
                                then st\<lparr>rectangles := rectangles st @ [newRect]\<rparr>
                                else st)
                     in st'\<lparr>isDrawing := False, startPos := None, currentRect := None\<rparr>))))"

text \<open>
  \<^verbatim>\<open>handleFileUpload\<close> of this variant: a document with no page is refused, and the
  failure path resets the document state only; a load that succeeds also resets
  \<^verbatim>\<open>drawingStateRef\<close>.
\<close>

definition handleFileUpload_ref :: "int \<Rightarrow> 'r app_state \<Rightarrow> 'r app_state" where
  "handleFileUpload_ref numPages st =
     (if numPages = 0
      then st\<lparr>totalPages := 0, currentPage := 1, rectangles := []\<rparr>
      else st\<lparr>totalPages := numPages, currentPage := 1, rectangles := [],
              isDrawing := False, currentRect := None, startPos := None\<rparr>)"

fun step_ref :: "event \<Rightarrow> rectangle_pts app_state \<Rightarrow> rectangle_pts app_state" where
  "step_ref (MouseDown cv e) st = handleMouseDown_ref cv e st"
| "step_ref (MouseMove cv e) st = handleMouseMove_ref cv e st"
| "step_ref (MouseUp cv e now) st = handleMouseUp_ref cv e now st"
| "step_ref MouseLeave st = handleMouseLeave st"
| "step_ref (GoToPage n) st = fst (goToPage_ref n st)"
| "step_ref (DeleteRect i) st = handleDeleteRect i st"
| "step_ref ClearPage st = handleClearPage st"
| "step_ref (FileUpload n) st = handleFileUpload_ref n st"

definition run_ref :: "event list \<Rightarrow> rectangle_pts app_state \<Rightarrow> rectangle_pts app_state" where
  "run_ref evs st = fold step_ref evs st"

section \<open>The point-marker variant\<close>

text \<open>
  A single click places a signature point. \<^verbatim>\<open>getCanvasCoordinates\<close> is the checked one,
  with the offset correction \<^verbatim>\<open>y = Math.max(0, y - 10)\<close> before the last check.
\<close>

definition getCanvasCoordinates_pt :: "canvas option \<Rightarrow> mouse_event \<Rightarrow> point option" where
  "getCanvasCoordinates_pt canvasRef e =
     (case canvasRef of
        None \<Rightarrow> None
      | Some cv \<Rightarrow>
          if rect_width cv = Fin 0 \<or> rect_height cv = Fin 0 then None
          else
            (let scaleX = js_div (canvas_width cv) (rect_width cv);
                 scaleY = js_div (canvas_height cv) (rect_height cv)
             in if \<not> isFinite scaleX \<or> \<not> isFinite scaleY then None
                else
                  (let x = js_mul (js_sub (clientX e) (rect_left cv)) scaleX;
                       y0 = js_mul (js_sub (clientY e) (rect_top cv)) scaleY;
                       y = Math_max (Fin 0) (js_sub y0 (Fin 10))
                   in if \<not> isFinite x \<or> \<not> isFinite y then None
                      else Some \<lparr>pos_x = x, pos_y = y\<rparr>)))"

record pt_state =
  pt_currentPage :: int
  pt_totalPages :: int
  signaturePoints :: "signaturePoint list"

definition initial_pt_state :: pt_state where
  "initial_pt_state = \<lparr>pt_currentPage = 1, pt_totalPages = 0, signaturePoints = []\<rparr>"

definition goToPage_pt :: "int \<Rightarrow> pt_state \<Rightarrow> pt_state" where
  "goToPage_pt pageNum st =
     (if pageNum \<ge> 1 \<and> pageNum \<le> pt_totalPages st
      then st\<lparr>pt_currentPage := pageNum\<rparr>
      else st)"

definition handleCanvasClick :: "canvas option \<Rightarrow> mouse_event \<Rightarrow> int \<Rightarrow> pt_state \<Rightarrow> pt_state" where
  "handleCanvasClick canvasRef e now st =
     (case getCanvasCoordinates_pt canvasRef e of
        None \<Rightarrow> st
      | Some pos \<Rightarrow>
          (let signaturePoint =
                 \<lparr>sp_x = Math_round (pos_x pos), sp_y = Math_round (pos_y pos),
                  sp_xPoints = pixelsToPoints (pos_x pos),
                  sp_yPoints = pixelsToPoints (pos_y pos),
                  sp_pageNum = pt_currentPage st, sp_id = now\<rparr>
           in st\<lparr>signaturePoints := signaturePoints st @ [signaturePoint]\<rparr>))"

definition handleClearPage_pt :: "pt_state \<Rightarrow> pt_state" where
  "handleClearPage_pt st =
     st\<lparr>signaturePoints :=
          filter (\<lambda>point. sp_pageNum point \<noteq> pt_currentPage st) (signaturePoints st)\<rparr>"

text \<open>Both paths of \<^verbatim>\<open>handleFileUpload\<close> and \<^verbatim>\<open>handleHome\<close> empty the list of points.\<close>

definition handleFileUpload_pt :: "int \<Rightarrow> pt_state \<Rightarrow> pt_state" where
  "handleFileUpload_pt numPages st =
     st\<lparr>pt_totalPages := numPages, pt_currentPage := 1, signaturePoints := []\<rparr>"

definition handleHome_pt :: "pt_state \<Rightarrow> pt_state" where
  "handleHome_pt st = st\<lparr>pt_currentPage := 1, pt_totalPages := 0, signaturePoints := []\<rparr>"

datatype pt_event =
    Click "canvas option" mouse_event int
  | GoToPage_pt int
  | ClearPage_pt
  | FileUpload_pt int
  | Home_pt

fun step_pt :: "pt_event \<Rightarrow> pt_state \<Rightarrow> pt_state" where
  "step_pt (Click cv e now) st = handleCanvasClick cv e now st"
| "step_pt (GoToPage_pt n) st = goToPage_pt n st"
| "step_pt ClearPage_pt st = handleClearPage_pt st"
| "step_pt (FileUpload_pt n) st = handleFileUpload_pt n st"
| "step_pt Home_pt st = handleHome_pt st"

definition run_pt :: "pt_event list \<Rightarrow> pt_state \<Rightarrow> pt_state" where
  "run_pt evs st = fold step_pt evs st"

fun clock_pt :: "pt_event list \<Rightarrow> int list" where
  "clock_pt [] = []"
| "clock_pt (Click cv e now # evs) = now # clock_pt evs"
| "clock_pt (ev # evs) = clock_pt evs"

section \<open>Notions used to state the properties\<close>

text \<open>
  The position a drag has reached after a list of mouse moves, each with the canvas it
  found: a move whose position is null leaves the rectangle being dragged as it was.
\<close>

fun last_pos :: "point \<Rightarrow> (canvas option \<times> mouse_event) list \<Rightarrow> point" where
  "last_pos p [] = p"
| "last_pos p ((cv, e) # ms) =
     (case getCanvasCoordinates cv e of None \<Rightarrow> last_pos p ms | Some q \<Rightarrow> last_pos q ms)"

text \<open>The value \<open>b64\<close> rounds to, before the overflow test.\<close>

definition b64_val :: "real \<Rightarrow> real" where
  "b64_val x = of_int (round_even (x / 2 powi b64_exp x)) * 2 powi b64_exp x"

text \<open>Every rectangle of a list is wider and higher than the threshold of 5 pixels.\<close>

definition min_size :: "('a rectangle_scheme) list \<Rightarrow> bool" where
  "min_size rs = list_all (\<lambda>r. js_gt (r_width r) (Fin 5) \<and> js_gt (r_height r) (Fin 5)) rs"

section \<open>Example inputs\<close>

text \<open>
  A canvas of 800 by 600 pixels in three layouts: not laid out yet (a box of zero area),
  shown at half size with its corner at (10, 20), and shown enlarged to 1600 by 1200.
\<close>

definition unlaid_canvas :: canvas where
  "unlaid_canvas =
     \<lparr>canvas_width = Fin 800, canvas_height = Fin 600, rect_left = Fin 0, rect_top = Fin 0,
      rect_width = Fin 0, rect_height = Fin 0\<rparr>"

definition half_size_canvas :: canvas where
  "half_size_canvas =
     \<lparr>canvas_width = Fin 800, canvas_height = Fin 600, rect_left = Fin 10, rect_top = Fin 20,
      rect_width = Fin 400, rect_height = Fin 300\<rparr>"

definition enlarged_canvas :: canvas where
  "enlarged_canvas =
     \<lparr>canvas_width = Fin 800, canvas_height = Fin 600, rect_left = Fin 0, rect_top = Fin 0,
      rect_width = Fin 1600, rect_height = Fin 1200\<rparr>"

definition mouse_at :: "real \<Rightarrow> real \<Rightarrow> mouse_event" where
  "mouse_at cx cy = \<lparr>clientX = Fin cx, clientY = Fin cy\<rparr>"

text \<open>A session on page 2 of a two-page document with two rectangles on page 1.\<close>

definition two_on_page_one :: "rectangle app_state" where
  "two_on_page_one =
     \<lparr>currentPage = 2, totalPages = 2,
      rectangles =
        [\<lparr>r_x = Fin 10, r_y = Fin 10, r_width = Fin 50, r_height = Fin 20,
          r_pageNum = 1, r_id = 1000\<rparr>,
         \<lparr>r_x = Fin 100, r_y = Fin 80, r_width = Fin 30, r_height = Fin 30,
          r_pageNum = 1, r_id = 2000\<rparr>],
      currentRect = None, isDrawing = False, startPos = None\<rparr>"

section \<open>Properties of the rounding to binary64\<close>

lemma ilog2_bounds:
  assumes "0 < x"
  shows "2 powi ilog2 x \<le> x \<and> x < 2 powi (ilog2 x + 1)"
proof (cases "1 \<le> x")
  case True
  define n where "n = \<lfloor>x\<rfloor>"
  from True have n: "1 \<le> n" unfolding n_def by simp
  then have "0 < n" by simp
  from bitlen_bounds [OF this] have lo: "2 ^ nat (bitlen n - 1) \<le> n" and hi: "n < 2 ^ nat (bitlen n)"
    by simp_all
  have b1: "1 \<le> bitlen n"
  proof (rule ccontr)
    assume "\<not> 1 \<le> bitlen n"
    with bitlen_nonneg [of n] have "bitlen n = 0" by simp
    with hi n show False by simp
  qed
  have e: "ilog2 x = bitlen n - 1" using True by (simp add: ilog2_def n_def)
  have "(2::real) powi (bitlen n - 1) = 2 ^ nat (bitlen n - 1)"
    using b1 by (simp add: power_int_nonneg_exp)
  also have "\<dots> = of_int (2 ^ nat (bitlen n - 1))" by simp
  also have "\<dots> \<le> of_int n" using lo by (simp only: of_int_le_iff)
  also have "\<dots> \<le> x" unfolding n_def by (rule of_int_floor_le)
  finally have l: "2 powi ilog2 x \<le> x" by (simp add: e)
  from hi have "n + 1 \<le> 2 ^ nat (bitlen n)" by simp
  then have "(of_int (n + 1) :: real) \<le> of_int (2 ^ nat (bitlen n))" by (simp only: of_int_le_iff)
  moreover have "x < of_int (n + 1)" unfolding n_def by linarith
  ultimately have "x < 2 ^ nat (bitlen n)" by simp
  also have "\<dots> = 2 powi (bitlen n)" using b1 by (simp add: power_int_nonneg_exp)
  finally have "x < 2 powi (ilog2 x + 1)" by (simp add: e)
  with l show ?thesis by simp
next
  case False
  define y where "y = 1 / x"
  define m where "m = \<lceil>y\<rceil> - 1"
  from False assms have y1: "1 < y" unfolding y_def by simp
  then have "2 \<le> \<lceil>y\<rceil>" by (simp add: le_ceiling_iff)
  then have m: "0 < m" unfolding m_def by simp
  from bitlen_bounds [OF m] have lo: "2 ^ nat (bitlen m - 1) \<le> m" and hi: "m < 2 ^ nat (bitlen m)"
    by simp_all
  have b1: "1 \<le> bitlen m"
  proof (rule ccontr)
    assume "\<not> 1 \<le> bitlen m"
    with bitlen_nonneg [of m] have "bitlen m = 0" by simp
    with hi m show False by simp
  qed
  have e: "ilog2 x = - bitlen m" using False by (simp add: ilog2_def m_def y_def)
  have my: "of_int m < y" unfolding m_def by linarith
  have ym: "y \<le> of_int (m + 1)" unfolding m_def by simp
  from hi have "m + 1 \<le> 2 ^ nat (bitlen m)" by simp
  then have "(of_int (m + 1) :: real) \<le> of_int (2 ^ nat (bitlen m))" by (simp only: of_int_le_iff)
  with ym have "y \<le> 2 ^ nat (bitlen m)" by simp
  also have "\<dots> = 2 powi (bitlen m)" using b1 by (simp add: power_int_nonneg_exp)
  finally have yu: "y \<le> 2 powi (bitlen m)" .
  have "(2::real) powi (bitlen m - 1) = 2 ^ nat (bitlen m - 1)"
    using b1 by (simp add: power_int_nonneg_exp)
  also have "\<dots> = of_int (2 ^ nat (bitlen m - 1))" by simp
  also have "\<dots> \<le> of_int m" using lo by (simp only: of_int_le_iff)
  also have "\<dots> < y" by (rule my)
  finally have yl: "2 powi (bitlen m - 1) < y" .
  have xy: "1 / y = x" unfolding y_def by simp
  have pe: "(2::real) powi ilog2 x = 1 / 2 powi (bitlen m)"
    by (simp add: e power_int_minus_divide)
  have pe': "(2::real) powi (ilog2 x + 1) = 1 / 2 powi (bitlen m - 1)"
  proof -
    have "ilog2 x + 1 = - (bitlen m - 1)" by (simp add: e)
    then show ?thesis by (simp only: power_int_minus_divide)
  qed
  from yu y1 have "1 / 2 powi (bitlen m) \<le> 1 / y"
    by (intro divide_left_mono) (simp_all add: mult_pos_pos)
  then have l: "2 powi ilog2 x \<le> x"
    by (simp only: pe xy)
  from y1 have "0 < y * 2 powi (bitlen m - 1)" by (simp add: mult_pos_pos)
  with yl have "1 / y < 1 / 2 powi (bitlen m - 1)"
    by (intro divide_strict_left_mono) simp_all
  then have "x < 2 powi (ilog2 x + 1)"
    by (simp only: pe' xy)
  with l show ?thesis by simp
qed

lemma ilog2_unique:
  assumes "2 powi L \<le> x" and "x < 2 powi (L + 1)"
  shows "ilog2 x = L"
proof -
  have "(0::real) < 2 powi L" by simp
  with assms have x: "0 < x" by linarith
  from ilog2_bounds [OF x] have a: "2 powi ilog2 x \<le> x" and b: "x < 2 powi (ilog2 x + 1)"
    by simp_all
  from a assms(2) have "(2::real) powi ilog2 x < 2 powi (L + 1)" by linarith
  have "ilog2 x < L + 1"
  proof (rule ccontr)
    assume "\<not> ilog2 x < L + 1"
    then have "L + 1 \<le> ilog2 x" by simp
    then have "(2::real) powi (L + 1) \<le> 2 powi ilog2 x"
      by (rule power_int_increasing) simp
    with \<open>(2::real) powi ilog2 x < 2 powi (L + 1)\<close> show False by simp
  qed
  moreover from assms(1) b have "(2::real) powi L < 2 powi (ilog2 x + 1)" by linarith
  then have "L < ilog2 x + 1"
  proof -
    assume lt: "(2::real) powi L < 2 powi (ilog2 x + 1)"
    show ?thesis
    proof (rule ccontr)
      assume "\<not> L < ilog2 x + 1"
      then have "ilog2 x + 1 \<le> L" by simp
      then have "(2::real) powi (ilog2 x + 1) \<le> 2 powi L"
        by (rule power_int_increasing) simp
      with lt show False by simp
    qed
  qed
  ultimately show ?thesis by simp
qed

lemma round_even_cases:
  "round_even q = \<lfloor>q\<rfloor> \<and> q - of_int \<lfloor>q\<rfloor> \<le> 1 / 2
   \<or> round_even q = \<lfloor>q\<rfloor> + 1 \<and> 1 / 2 \<le> q - of_int \<lfloor>q\<rfloor>"
  by (simp add: round_even_def Let_def)

lemma round_even_error: "\<bar>of_int (round_even q) - q\<bar> \<le> 1 / 2"
proof -
  have "of_int \<lfloor>q\<rfloor> \<le> q" and "q < of_int \<lfloor>q\<rfloor> + 1" by linarith+
  with round_even_cases [of q] show ?thesis by auto
qed

lemma round_even_of_int: "round_even (of_int n) = n"
  by (simp add: round_even_def)

lemma round_even_ge:
  assumes "of_int N \<le> q"
  shows "N \<le> round_even q"
proof -
  from assms have "N \<le> \<lfloor>q\<rfloor>" by (simp add: le_floor_iff)
  with round_even_cases [of q] show ?thesis by auto
qed

lemma round_even_le:
  assumes "q \<le> of_int N"
  shows "round_even q \<le> N"
proof (cases "q = of_int N")
  case True
  then show ?thesis by (simp add: round_even_of_int)
next
  case False
  with assms have "q < of_int N" by simp
  then have "\<lfloor>q\<rfloor> < N" by (simp add: floor_less_iff)
  with round_even_cases [of q] show ?thesis by auto
qed

lemma round_even_below_half:
  assumes "q < of_int N - 1 / 2"
  shows "round_even q < N"
proof -
  from assms have "q < of_int N" by simp
  then have f: "\<lfloor>q\<rfloor> < N" by (simp add: floor_less_iff)
  show ?thesis
  proof (cases "\<lfloor>q\<rfloor> = N - 1")
    case True
    with assms have "q - of_int \<lfloor>q\<rfloor> < 1 / 2" by simp
    then have "round_even q = \<lfloor>q\<rfloor>" by (simp add: round_even_def Let_def)
    with f show ?thesis by simp
  next
    case False
    with f have "\<lfloor>q\<rfloor> + 1 < N" by simp
    with round_even_cases [of q] show ?thesis by auto
  qed
qed

lemma round_even_above_half:
  assumes "of_int N - 1 / 2 \<le> q" and "even N"
  shows "N \<le> round_even q"
proof (cases "of_int N \<le> q")
  case True
  then show ?thesis by (rule round_even_ge)
next
  case False
  then have "q < of_int N" by simp
  then have "\<lfloor>q\<rfloor> < N" by (simp add: floor_less_iff)
  moreover from assms(1) have "of_int (N - 1) \<le> q" by simp
  then have "N - 1 \<le> \<lfloor>q\<rfloor>" by (simp only: le_floor_iff)
  ultimately have f: "\<lfloor>q\<rfloor> = N - 1" by simp
  with assms(2) have odd: "odd \<lfloor>q\<rfloor>" by simp
  from f assms(1) have "1 / 2 \<le> q - of_int \<lfloor>q\<rfloor>" by simp
  with odd have "round_even q = \<lfloor>q\<rfloor> + 1" by (auto simp: round_even_def Let_def)
  with f show ?thesis by simp
qed

lemma ilog2_less:
  assumes "0 < x" and "x < 2 powi K"
  shows "ilog2 x < K"
proof (rule ccontr)
  assume "\<not> ilog2 x < K"
  then have "K \<le> ilog2 x" by simp
  then have "(2::real) powi K \<le> 2 powi ilog2 x" by (rule power_int_increasing) simp
  with ilog2_bounds [OF assms(1)] assms(2) show False by linarith
qed

lemma ilog2_ge:
  assumes "2 powi K \<le> x"
  shows "K \<le> ilog2 x"
proof (rule ccontr)
  have "(0::real) < 2 powi K" by simp
  with assms have x: "0 < x" by linarith
  assume "\<not> K \<le> ilog2 x"
  then have "ilog2 x + 1 \<le> K" by simp
  then have "(2::real) powi (ilog2 x + 1) \<le> 2 powi K" by (rule power_int_increasing) simp
  with ilog2_bounds [OF x] assms show False by linarith
qed

lemma b64_unfold:
  "x \<noteq> 0 \<Longrightarrow> b64 x = (if 2 ^ 1024 \<le> b64_val x then PosInf
     else if b64_val x \<le> - (2 ^ 1024) then NegInf else Fin (b64_val x))"
  by (simp add: b64_def b64_val_def Let_def)

lemma b64_val_error: "\<bar>b64_val x - x\<bar> \<le> 2 powi (b64_exp x - 1)"
proof -
  define e where "e = b64_exp x"
  define q where "q = x / 2 powi e"
  have p: "(0::real) < 2 powi e" by simp
  have x: "x = q * 2 powi e" unfolding q_def by simp
  have "b64_val x - x = (of_int (round_even q) - q) * 2 powi e"
    unfolding b64_val_def e_def [symmetric] q_def [symmetric] using x by (simp add: algebra_simps)
  then have "\<bar>b64_val x - x\<bar> = \<bar>of_int (round_even q) - q\<bar> * 2 powi e"
    by (simp add: abs_mult)
  also have "\<dots> \<le> 1 / 2 * 2 powi e"
    using round_even_error [of q] by (intro mult_right_mono) simp_all
  also have "\<dots> = 2 powi (e - 1)"
    by (simp add: power_int_diff)
  finally show ?thesis unfolding e_def .
qed

lemma b64_val_nonneg: "0 \<le> x \<Longrightarrow> 0 \<le> b64_val x"
proof -
  assume "0 \<le> x"
  then have "(of_int 0 :: real) \<le> x / 2 powi b64_exp x" by simp
  then have "0 \<le> round_even (x / 2 powi b64_exp x)" by (rule round_even_ge)
  then show ?thesis unfolding b64_val_def by simp
qed

lemma b64_exp_le:
  assumes "x \<noteq> 0" and "\<bar>x\<bar> < 2 powi K"
  shows "b64_exp x \<le> max (K - 53) (- 1074)"
proof -
  from assms have "ilog2 \<bar>x\<bar> < K" by (intro ilog2_less) simp_all
  then show ?thesis unfolding b64_exp_def by simp
qed

lemma b64_error:
  assumes "x \<noteq> 0" and "\<bar>x\<bar> < 2 powi K" and "K \<le> 1023"
  shows "\<exists>y. b64 x = Fin y \<and> \<bar>y - x\<bar> \<le> 2 powi (max (K - 53) (- 1074) - 1)"
proof -
  define E where "E = max (K - 53) (- 1074)"
  from b64_exp_le [OF assms(1,2)] have "b64_exp x - 1 \<le> E - 1" unfolding E_def by simp
  then have "(2::real) powi (b64_exp x - 1) \<le> 2 powi (E - 1)"
    by (rule power_int_increasing) simp
  with b64_val_error [of x] have err: "\<bar>b64_val x - x\<bar> \<le> 2 powi (E - 1)" by linarith
  from assms(3) have "E - 1 \<le> 969" unfolding E_def by simp
  then have "(2::real) powi (E - 1) \<le> 2 powi 969" by (rule power_int_increasing) simp
  then have e969: "(2::real) powi (E - 1) \<le> 2 ^ 969" by simp
  from assms(3) have "(2::real) powi K \<le> 2 powi 1023" by (rule power_int_increasing) simp
  then have "(2::real) powi K \<le> 2 ^ 1023" by simp
  with assms(2) have x: "\<bar>x\<bar> < 2 ^ 1023" by linarith
  have "(2::real) ^ 1023 + 2 ^ 969 < 2 ^ 1024" by simp
  with err e969 x have "\<bar>b64_val x\<bar> < 2 ^ 1024" by linarith
  then have "b64 x = Fin (b64_val x)" using assms(1) by (simp add: b64_unfold abs_less_iff)
  with err show ?thesis unfolding E_def by blast
qed

lemma b64_exact:
  assumes x: "x = of_int m * 2 powi k" and m: "\<bar>m\<bar> < 2 ^ 53" and k: "- 1074 \<le> k"
    and fin: "\<bar>x\<bar> < 2 ^ 1024"
  shows "b64 x = Fin x"
proof (cases "x = 0")
  case True
  then show ?thesis by (simp add: b64_def)
next
  case False
  define e where "e = b64_exp x"
  from m have "\<bar>(of_int m :: real)\<bar> < of_int (2 ^ 53)"
    by (metis of_int_abs of_int_less_iff)
  then have "\<bar>(of_int m :: real)\<bar> < 2 powi 53" by simp
  then have "\<bar>of_int m :: real\<bar> * 2 powi k < 2 powi 53 * 2 powi k"
    by (intro mult_strict_right_mono) simp_all
  also have "\<dots> = 2 powi (k + 53)" by (simp add: power_int_add)
  finally have "\<bar>x\<bar> < 2 powi (k + 53)" by (simp add: x abs_mult)
  from b64_exp_le [OF False this] k have ek: "e \<le> k" unfolding e_def by simp
  have "(2::real) powi k = 2 powi (k - e) * 2 powi e"
    by (simp flip: power_int_add)
  also have "(2::real) powi (k - e) = 2 ^ nat (k - e)"
    using ek by (simp add: power_int_nonneg_exp)
  finally have pk: "(2::real) powi k = 2 ^ nat (k - e) * 2 powi e" .
  have "x / 2 powi e = of_int m * 2 ^ nat (k - e)"
    by (simp add: x pk)
  also have "\<dots> = of_int (m * 2 ^ nat (k - e))" by simp
  finally have "round_even (x / 2 powi e) = m * 2 ^ nat (k - e)"
    by (simp only: round_even_of_int)
  then have "b64_val x = of_int m * 2 ^ nat (k - e) * 2 powi e"
    unfolding b64_val_def e_def [symmetric] by simp
  also have "\<dots> = x" by (simp add: x pk)
  finally have "b64_val x = x" .
  with fin False show ?thesis by (simp add: b64_unfold abs_less_iff)
qed

lemma b64_of_int:
  assumes "\<bar>n\<bar> < 2 ^ 53"
  shows "b64 (of_int n) = Fin (of_int n)"
proof (rule b64_exact [where m = n and k = 0])
  show "(of_int n :: real) = of_int n * 2 powi 0" by simp
  show "\<bar>n\<bar> < 2 ^ 53" by (rule assms)
  show "- 1074 \<le> (0::int)" by simp
  from assms have "\<bar>(of_int n :: real)\<bar> < of_int (2 ^ 53)"
    by (metis of_int_abs of_int_less_iff)
  also have "\<dots> < (2::real) ^ 1024" by simp
  finally show "\<bar>of_int n :: real\<bar> < 2 ^ 1024" .
qed

lemma b64_exp_eq:
  assumes "2 powi L \<le> \<bar>x\<bar>" and "\<bar>x\<bar> < 2 powi (L + 1)"
  shows "b64_exp x = max (L - 52) (- 1074)"
  using ilog2_unique [OF assms] by (simp add: b64_exp_def)

lemma b64_eval:
  assumes "2 powi L \<le> \<bar>x\<bar>" and "\<bar>x\<bar> < 2 powi (L + 1)"
  shows "b64 x =
     (let e = max (L - 52) (- 1074);
          y = of_int (round_even (x / 2 powi e)) * 2 powi e
      in if 2 ^ 1024 \<le> y then PosInf else if y \<le> - (2 ^ 1024) then NegInf else Fin y)"
proof -
  have "(0::real) < 2 powi L" by simp
  with assms(1) have "0 < \<bar>x\<bar>" by linarith
  then have "x \<noteq> 0" by simp
  then show ?thesis
    by (simp add: b64_def Let_def b64_exp_eq [OF assms])
qed

lemma b64_numeral: "numeral k < (2::int) ^ 53 \<Longrightarrow> b64 (numeral k) = Fin (numeral k)"
  using b64_of_int [of "numeral k"] by simp

lemma b64_zero: "b64 0 = Fin 0"
  by (simp add: b64_def)

lemma b64_one: "b64 1 = Fin 1"
  using b64_of_int [of 1] by simp

lemma b64_neg_numeral: "numeral k < (2::int) ^ 53 \<Longrightarrow> b64 (- numeral k) = Fin (- numeral k)"
  using b64_of_int [of "- numeral k"] by simp

lemma b64_half_int:
  assumes "\<bar>n\<bar> < 2 ^ 53"
  shows "b64 (of_int n / 2) = Fin (of_int n / 2)"
proof (rule b64_exact [where m = n and k = "- 1"])
  show "(of_int n / 2 :: real) = of_int n * 2 powi (- 1)" by simp
  show "\<bar>n\<bar> < 2 ^ 53" by (rule assms)
  show "- 1074 \<le> (- 1 :: int)" by simp
  have "\<bar>(of_int n :: real) / 2\<bar> \<le> \<bar>of_int n\<bar>" by simp
  also from assms have "\<bar>(of_int n :: real)\<bar> < of_int (2 ^ 53)"
    by (metis of_int_abs of_int_less_iff)
  also have "\<dots> < (2::real) ^ 1024" by simp
  finally show "\<bar>of_int n / 2 :: real\<bar> < 2 ^ 1024" .
qed

lemma b64_half_numeral:
  "numeral k < (2::int) ^ 53 \<Longrightarrow> b64 (numeral k / 2) = Fin (numeral k / 2)"
  using b64_half_int [of "numeral k"] by simp

lemma b64_val_zero: "b64_val 0 = 0"
  by (simp add: b64_val_def round_even_def)

lemma b64_finite_val:
  assumes "\<bar>b64_val x\<bar> < 2 ^ 1024"
  shows "b64 x = Fin (b64_val x)"
proof (cases "x = 0")
  case True
  then show ?thesis by (simp add: b64_def b64_val_zero)
next
  case False
  with assms show ?thesis by (simp add: b64_unfold abs_less_iff)
qed

lemma b64_below_threshold:
  assumes "0 \<le> x" and "x < 2 ^ 1024 - 2 ^ 970"
  shows "b64 x = Fin (b64_val x) \<and> 0 \<le> b64_val x"
proof -
  have nn: "0 \<le> b64_val x" using assms(1) by (rule b64_val_nonneg)
  have "b64_val x < 2 ^ 1024"
  proof (cases "x < 2 powi 1023")
    case True
    show ?thesis
    proof (cases "x = 0")
      case True
      then show ?thesis by (simp add: b64_val_zero)
    next
      case False
      with True assms(1) b64_error [of x 1023] obtain y
        where y: "b64 x = Fin y" and "\<bar>y - x\<bar> \<le> 2 powi (max (1023 - 53) (- 1074) - 1)"
        by auto
      then have "\<bar>y - x\<bar> \<le> 2 ^ 969" by simp
      moreover from True have "x < 2 ^ 1023" by simp
      moreover have "(2::real) ^ 1023 + 2 ^ 969 < 2 ^ 1024" by simp
      ultimately have "y < 2 ^ 1024" by linarith
      moreover from y False have "y = b64_val x"
        by (simp add: b64_unfold split: if_splits)
      ultimately show ?thesis by simp
    qed
  next
    case False
    then have lo: "2 powi 1023 \<le> \<bar>x\<bar>" using assms(1) by simp
    have "(2::real) ^ 1024 - 2 ^ 970 < 2 ^ 1024" by simp
    with assms have "\<bar>x\<bar> < 2 powi (1023 + 1)" by simp
    from b64_exp_eq [OF lo this] have e: "b64_exp x = 971" by simp
    have "x / 2 powi 971 < (2 ^ 1024 - 2 ^ 970) / 2 powi 971"
      using assms(2) by (intro divide_strict_right_mono) simp_all
    also have "\<dots> = of_int (2 ^ 53) - 1 / 2" by simp
    finally have "round_even (x / 2 powi 971) < 2 ^ 53" by (rule round_even_below_half)
    then have "round_even (x / 2 powi 971) \<le> 2 ^ 53 - 1" by simp
    then have "(of_int (round_even (x / 2 powi 971)) :: real) \<le> of_int (2 ^ 53 - 1)"
      by (simp only: of_int_le_iff)
    then have "of_int (round_even (x / 2 powi 971)) * 2 powi 971 \<le> (of_int (2 ^ 53 - 1) :: real) * 2 powi 971"
      by (intro mult_right_mono) simp_all
    also have "\<dots> < 2 ^ 1024" by simp
    finally show ?thesis by (simp add: b64_val_def e)
  qed
  with nn have "\<bar>b64_val x\<bar> < 2 ^ 1024" by simp
  then have "b64 x = Fin (b64_val x)" by (rule b64_finite_val)
  with nn show ?thesis by simp
qed

lemma b64_overflow:
  assumes "2 ^ 1024 - 2 ^ 970 \<le> x"
  shows "b64 x = PosInf"
proof -
  have "(2::real) powi 1023 \<le> 2 ^ 1024 - 2 ^ 970" by simp
  with assms have x1023: "2 powi 1023 \<le> x" by linarith
  have "(0::real) < 2 powi 1023" by simp
  with x1023 have xpos: "0 < x" by linarith
  then have ax: "\<bar>x\<bar> = x" by simp
  define L where "L = ilog2 x"
  from x1023 have L: "1023 \<le> L" unfolding L_def by (rule ilog2_ge)
  then have e: "b64_exp x = L - 52" by (simp add: b64_exp_def ax L_def)
  have "2 ^ 1024 \<le> b64_val x"
  proof (cases "L = 1023")
    case True
    have "(of_int (2 ^ 53) :: real) - 1 / 2 = (2 ^ 1024 - 2 ^ 970) / 2 powi 971" by simp
    also have "\<dots> \<le> x / 2 powi 971"
      using assms by (intro divide_right_mono) simp_all
    finally have "2 ^ 53 \<le> round_even (x / 2 powi 971)"
      by (rule round_even_above_half) simp
    then have "(of_int (2 ^ 53) :: real) \<le> of_int (round_even (x / 2 powi 971))"
      by (simp only: of_int_le_iff)
    then have "(of_int (2 ^ 53) :: real) * 2 powi 971 \<le> of_int (round_even (x / 2 powi 971)) * 2 powi 971"
      by (intro mult_right_mono) simp_all
    moreover have "(of_int (2 ^ 53) :: real) * 2 powi 971 = 2 ^ 1024" by simp
    ultimately show ?thesis using True by (simp add: b64_val_def e)
  next
    case False
    with L have L1024: "1024 \<le> L" by simp
    from ilog2_bounds [OF xpos] have "2 powi L \<le> x" unfolding L_def by simp
    then have "2 powi L / 2 powi (L - 52) \<le> x / 2 powi (L - 52)"
      by (intro divide_right_mono) simp_all
    moreover have "(2::real) powi L / 2 powi (L - 52) = 2 powi 52"
      by (simp flip: power_int_diff)
    ultimately have "(of_int (2 ^ 52) :: real) \<le> x / 2 powi (L - 52)" by simp
    then have "2 ^ 52 \<le> round_even (x / 2 powi (L - 52))" by (rule round_even_ge)
    then have "(of_int (2 ^ 52) :: real) \<le> of_int (round_even (x / 2 powi (L - 52)))"
      by (simp only: of_int_le_iff)
    then have "(of_int (2 ^ 52) :: real) * 2 powi (L - 52) \<le> b64_val x"
      unfolding b64_val_def e by (intro mult_right_mono) simp_all
    moreover have "(of_int (2 ^ 52) :: real) * 2 powi (L - 52) = 2 powi L"
    proof -
      have "(2::real) powi (52 + (L - 52)) = 2 powi 52 * 2 powi (L - 52)"
        by (rule power_int_add) simp
      moreover have "52 + (L - 52) = L" by simp
      ultimately have "(2::real) powi L = 2 powi 52 * 2 powi (L - 52)" by (simp only:)
      moreover have "(of_int (2 ^ 52) :: real) = 2 powi 52" by simp
      ultimately show ?thesis by (simp only:)
    qed
    moreover from L1024 have "(2::real) powi 1024 \<le> 2 powi L" by (rule power_int_increasing) simp
    ultimately show ?thesis by simp
  qed
  with xpos show ?thesis by (simp add: b64_unfold)
qed

lemma b64_rel_error:
  "\<bar>b64_val x - x\<bar> \<le> \<bar>x\<bar> / 2 ^ 53 + 1 / 2 ^ 1075"
proof (cases "x = 0")
  case True
  then show ?thesis by (simp add: b64_val_zero)
next
  case False
  then have ax: "0 < \<bar>x\<bar>" by simp
  show ?thesis
  proof (cases "- 1074 \<le> ilog2 \<bar>x\<bar> - 52")
    case True
    then have "b64_exp x - 1 = ilog2 \<bar>x\<bar> + (- 53)" by (simp add: b64_exp_def)
    moreover have "(2::real) powi (ilog2 \<bar>x\<bar> + (- 53)) = 2 powi ilog2 \<bar>x\<bar> * 2 powi (- 53)"
      by (rule power_int_add) simp
    ultimately have "(2::real) powi (b64_exp x - 1) = 2 powi ilog2 \<bar>x\<bar> * 2 powi (- 53)"
      by (simp only:)
    also have "\<dots> \<le> \<bar>x\<bar> * 2 powi (- 53)"
      using ilog2_bounds [OF ax] by (intro mult_right_mono) simp_all
    also have "\<dots> = \<bar>x\<bar> / 2 ^ 53" by (simp add: power_int_minus_divide)
    finally have "(2::real) powi (b64_exp x - 1) \<le> \<bar>x\<bar> / 2 ^ 53" .
    with b64_val_error [of x] show ?thesis by simp
  next
    case False
    then have "b64_exp x - 1 = - 1075" by (simp add: b64_exp_def)
    moreover have "(2::real) powi (- 1075) = 1 / 2 ^ 1075"
      by (simp add: power_int_minus_divide)
    ultimately have "(2::real) powi (b64_exp x - 1) = 1 / 2 ^ 1075"
      by (simp only:)
    with b64_val_error [of x] have "\<bar>b64_val x - x\<bar> \<le> 1 / 2 ^ 1075" by simp
    moreover have "0 \<le> \<bar>x\<bar> / 2 ^ 53" by simp
    ultimately show ?thesis by linarith
  qed
qed

section \<open>Properties of the unit conversion\<close>

lemma b64_half: "b64 (1 / 2) = Fin (1 / 2)"
  using b64_half_int [of 1] by simp

lemmas b64_simps = b64_numeral b64_neg_numeral b64_zero b64_one b64_half_numeral b64_half

text \<open>Scaling a non-negative finite number by a / b and rounding, as both conversions do.\<close>

lemma Math_max_zero_PosInf: "Math_max (Fin 0) PosInf = PosInf"
  by (simp add: Math_max_def)

lemma Math_max_round_nonneg:
  assumes "0 \<le> x"
  shows "Math_max (Fin 0) (Math_round (Fin x)) = Fin (of_int \<lfloor>x + 1 / 2\<rfloor>)"
proof -
  define n where "n = \<lfloor>x + 1 / 2\<rfloor>"
  from assms have "(0::real) \<le> x + 1 / 2" by simp
  then have "0 \<le> n" unfolding n_def by (simp only: zero_le_floor)
  then have "\<not> real_of_int n < 0" by linarith
  moreover have "Math_round (Fin x) = Fin (of_int n)" unfolding n_def by simp
  ultimately show ?thesis unfolding Math_max_def n_def [symmetric] by simp
qed

lemma scale_finite:
  assumes r: "0 \<le> r" and a: "0 < a" and b: "2 \<le> b" and lim: "r * a < 2 ^ 1024 - 2 ^ 970"
  shows "Math_max (Fin 0) (Math_round (js_div (js_mul (Fin r) (Fin a)) (Fin b)))
           = Fin (of_int \<lfloor>b64_val (b64_val (r * a) / b) + 1 / 2\<rfloor>)
         \<and> 0 \<le> b64_val (r * a) \<and> 0 \<le> b64_val (b64_val (r * a) / b)"
proof -
  define y1 where "y1 = b64_val (r * a)"
  define y2 where "y2 = b64_val (y1 / b)"
  from r a have ra: "0 \<le> r * a" by simp
  from b64_below_threshold [OF ra lim] have m: "b64 (r * a) = Fin y1" and y1: "0 \<le> y1"
    unfolding y1_def by simp_all
  have y1lt: "y1 < 2 ^ 1024"
  proof (cases "r * a = 0")
    case True
    then have "y1 = 0" unfolding y1_def by (simp only: b64_val_zero)
    then show ?thesis by simp
  next
    case False
    with m show ?thesis
      by (simp add: b64_unfold y1_def split: if_splits)
  qed
  from y1 b have q: "0 \<le> y1 / b" by simp
  from b y1 have "y1 / b \<le> y1 / 2" by (intro divide_left_mono) simp_all
  also from y1lt have "y1 / 2 < 2 ^ 1024 - 2 ^ 970" by simp
  finally have "y1 / b < 2 ^ 1024 - 2 ^ 970" .
  from b64_below_threshold [OF q this] have d: "b64 (y1 / b) = Fin y2" and y2: "0 \<le> y2"
    unfolding y2_def by simp_all
  from b have b0: "b \<noteq> 0" by simp
  have "js_div (js_mul (Fin r) (Fin a)) (Fin b) = Fin y2"
    by (simp add: m d b0)
  then have "Math_max (Fin 0) (Math_round (js_div (js_mul (Fin r) (Fin a)) (Fin b)))
      = Fin (of_int \<lfloor>y2 + 1 / 2\<rfloor>)"
    using Math_max_round_nonneg [OF y2] by simp
  with y1 y2 show ?thesis unfolding y2_def y1_def by simp
qed

lemma scale_overflow:
  assumes a: "0 < a" and b: "0 < b" and lim: "2 ^ 1024 - 2 ^ 970 \<le> r * a"
  shows "Math_max (Fin 0) (Math_round (js_div (js_mul (Fin r) (Fin a)) (Fin b))) = PosInf"
proof -
  from b64_overflow [OF lim] have "js_mul (Fin r) (Fin a) = PosInf" by simp
  moreover from b have "js_div PosInf (Fin b) = PosInf" by (simp add: js_inf_def)
  ultimately show ?thesis by (simp add: Math_max_def)
qed

text \<open>The error of the two roundings, for the factors 72 / 96 and 96 / 72.\<close>

lemma scale_error:
  assumes r: "0 \<le> r" and a: "0 < a" and b: "2 \<le> b"
  shows "\<bar>b64_val (b64_val (r * a) / b) - r * a / b\<bar> \<le> (r * a / b) / 2 ^ 51 + 1 / 2 ^ 1074"
proof -
  define x where "x = r * a"
  define y1 where "y1 = b64_val x"
  define y2 where "y2 = b64_val (y1 / b)"
  define c :: real where "c = 1 / 2 ^ 53"
  define u :: real where "u = 1 / 2 ^ 1075"
  have c: "0 < c" "c \<le> 1" and u: "0 \<le> u" unfolding c_def u_def by simp_all
  from r a have x: "0 \<le> x" unfolding x_def by simp
  then have y1: "0 \<le> y1" unfolding y1_def by (rule b64_val_nonneg)
  from b have bp: "0 < b" by simp
  from b64_rel_error [of x] x have e1: "\<bar>y1 - x\<bar> \<le> x * c + u"
    unfolding y1_def c_def u_def by simp
  from b64_rel_error [of "y1 / b"] y1 bp have e2: "\<bar>y2 - y1 / b\<bar> \<le> (y1 / b) * c + u"
    unfolding y2_def c_def u_def by simp
  define X where "X = x / b"
  define Y where "Y = y1 / b"
  have X: "0 \<le> X" unfolding X_def using x bp by simp
  have "\<bar>Y - X\<bar> = \<bar>y1 - x\<bar> / b" unfolding X_def Y_def using bp
    by (simp add: diff_divide_distrib [symmetric])
  also have "\<dots> \<le> (x * c + u) / b" using e1 bp by (intro divide_right_mono) simp_all
  also have "\<dots> = X * c + u / b" unfolding X_def by (simp add: add_divide_distrib)
  also have "u / b \<le> u / 2" using b u by (intro divide_left_mono) simp_all
  finally have d1: "\<bar>Y - X\<bar> \<le> X * c + u / 2" by simp
  have Xc: "0 \<le> X * c" using X c by simp
  have "X * c * c \<le> X * c * 1" using Xc c by (intro mult_left_mono) simp_all
  then have Xcc: "X * c * c \<le> X * c" by simp
  have "u / 2 * c \<le> u / 2 * 1" using u c by (intro mult_left_mono) simp_all
  then have uc: "u / 2 * c \<le> u / 2" by simp
  from d1 have "Y \<le> X + X * c + u / 2" by linarith
  then have "Y * c \<le> (X + X * c + u / 2) * c" using c by (intro mult_right_mono) simp_all
  also have "\<dots> = X * c + X * c * c + u / 2 * c" by (simp add: algebra_simps)
  finally have Yc: "Y * c \<le> 2 * (X * c) + u / 2" using Xcc uc by linarith
  from e2 have "\<bar>y2 - Y\<bar> \<le> Y * c + u" unfolding Y_def .
  with Yc d1 have "\<bar>y2 - X\<bar> \<le> 3 * (X * c) + 2 * u" by linarith
  also have "3 * (X * c) \<le> 4 * (X * c)" using Xc by simp
  finally have "\<bar>y2 - X\<bar> \<le> X * (4 * c) + 2 * u" by simp
  moreover have "4 * c = 1 / 2 ^ 51" unfolding c_def by simp
  moreover have "2 * u = 1 / 2 ^ 1074" unfolding u_def by simp
  ultimately show ?thesis unfolding y2_def y1_def X_def x_def by simp
qed

lemma b64_val_of_b64:
  assumes "b64 x = Fin y"
  shows "b64_val x = y"
proof (cases "x = 0")
  case True
  with assms show ?thesis by (simp add: b64_def b64_val_zero)
next
  case False
  with assms show ?thesis by (simp add: b64_unfold split: if_splits)
qed

lemma pixelsToPoints_zero:
  "\<not> isFinite v \<or> js_lt v (Fin 0) \<Longrightarrow> pixelsToPoints v = Fin 0"
  by (simp add: pixelsToPoints_def)

lemma pixelsToPoints_finite:
  assumes "0 \<le> r" and "r * 72 < 2 ^ 1024 - 2 ^ 970"
  shows "pixelsToPoints (Fin r) = Fin (of_int \<lfloor>b64_val (b64_val (r * 72) / 96) + 1 / 2\<rfloor>)"
    and "0 \<le> b64_val (b64_val (r * 72) / 96)"
  using scale_finite [OF assms(1) _ _ assms(2), of 96] assms(1)
  by (simp_all add: pixelsToPoints_def DOCUSIGN_DPI_def UI_DPI_def)


lemma pixelsToPoints_overflow:
  assumes "0 \<le> r" and "2 ^ 1024 - 2 ^ 970 \<le> r * 72"
  shows "pixelsToPoints (Fin r) = PosInf"
  using scale_overflow [OF _ _ assms(2), of 96] assms(1)
  by (simp add: pixelsToPoints_def DOCUSIGN_DPI_def UI_DPI_def)

lemma floor_half_error: "\<bar>of_int \<lfloor>y + 1 / 2\<rfloor> - y\<bar> \<le> 1 / (2::real)"
proof -
  have "of_int \<lfloor>y + 1 / 2\<rfloor> \<le> y + 1 / 2" by (rule of_int_floor_le)
  moreover have "y + 1 / 2 < of_int \<lfloor>y + 1 / 2\<rfloor> + 1" by linarith
  ultimately show ?thesis by linarith
qed

lemma pixelsToPoints_error:
  assumes "0 \<le> r" and "r * 72 < 2 ^ 1024 - 2 ^ 970"
  shows "\<exists>n::int. 0 \<le> n \<and> pixelsToPoints (Fin r) = Fin (of_int n)
     \<and> \<bar>of_int n - r * 72 / 96\<bar> \<le> 1 / 2 + (r * 72 / 96) / 2 ^ 51 + 1 / 2 ^ 1074"
proof -
  define y2 where "y2 = b64_val (b64_val (r * 72) / 96)"
  define n where "n = \<lfloor>y2 + 1 / 2\<rfloor>"
  from pixelsToPoints_finite [OF assms] have p: "pixelsToPoints (Fin r) = Fin (of_int n)"
    and y2: "0 \<le> y2" unfolding n_def y2_def by simp_all
  from y2 have "(0::real) \<le> y2 + 1 / 2" by simp
  then have n0: "0 \<le> n" unfolding n_def by (simp only: zero_le_floor)
  have "\<bar>y2 - r * 72 / 96\<bar> \<le> (r * 72 / 96) / 2 ^ 51 + 1 / 2 ^ 1074"
    unfolding y2_def using assms(1) by (intro scale_error) simp_all
  moreover have "\<bar>of_int n - y2\<bar> \<le> 1 / 2" unfolding n_def by (rule floor_half_error)
  ultimately have "\<bar>of_int n - r * 72 / 96\<bar> \<le> 1 / 2 + (r * 72 / 96) / 2 ^ 51 + 1 / 2 ^ 1074"
    by linarith
  with p n0 show ?thesis by blast
qed

lemma pixelsToPoints_int:
  assumes "0 \<le> k" and "k \<le> 2 ^ 46"
  shows "pixelsToPoints (Fin (of_int k)) = Fin (of_int \<lfloor>of_int k * 72 / 96 + 1 / (2::real)\<rfloor>)"
proof -
  from assms have k72: "\<bar>k * 72\<bar> < 2 ^ 53" by simp
  have "b64 (of_int (k * 72)) = Fin (of_int (k * 72))" using k72 by (rule b64_of_int)
  then have v1: "b64_val (of_int k * 72) = of_int k * 72"
    using b64_val_of_b64 [of "of_int (k * 72)"] by simp
  have "b64 (of_int k * 72 / 96) = Fin (of_int k * 72 / 96)"
  proof (rule b64_exact [where m = "3 * k" and k = "- 2"])
    show "(of_int k * 72 / 96 :: real) = of_int (3 * k) * 2 powi (- 2)" by simp
    from assms show "\<bar>3 * k\<bar> < 2 ^ 53" by simp
    show "- 1074 \<le> (- 2 :: int)" by simp
    from assms have "(of_int k :: real) \<le> of_int (2 ^ 46)" by (simp only: of_int_le_iff)
    with assms(1) have "\<bar>of_int k * 72 / 96 :: real\<bar> \<le> 2 ^ 46" by simp
    moreover have "(2::real) ^ 46 < 2 ^ 1024" by simp
    ultimately show "\<bar>of_int k * 72 / 96 :: real\<bar> < 2 ^ 1024" by linarith
  qed
  then have v2: "b64_val (of_int k * 72 / 96) = of_int k * 72 / 96" by (rule b64_val_of_b64)
  from assms have "(of_int k :: real) \<le> of_int (2 ^ 46)" by (simp only: of_int_le_iff)
  then have "(of_int k :: real) * 72 \<le> 2 ^ 46 * 72" by simp
  moreover have "(2::real) ^ 46 * 72 < 2 ^ 1024 - 2 ^ 970" by simp
  ultimately have lim: "(of_int k :: real) * 72 < 2 ^ 1024 - 2 ^ 970" by linarith
  from assms(1) have "(0::real) \<le> of_int k" by simp
  from pixelsToPoints_finite(1) [OF this lim] show ?thesis by (simp only: v1 v2)
qed


text \<open>
  C7, as stated, fails on the code. The guard of \<^verbatim>\<open>pixelsToPoints\<close> tests the input only:
  for the finite input \<open>2^1020\<close> the product \<open>pixels * 72\<close> overflows and the result is
  \<open>Infinity\<close>, not a finite integer. And for the binary64 value nearest to 22/3 (written
  7.333333333333333) the product rounds to 528, the quotient is 5.5 and the result is 6,
  while the integer nearest to the exact \<open>pixels * 72 / 96\<close> is 5.
\<close>

theorem pixelsToPoints_not_finite_counterexample:
  "pixelsToPoints (Fin (2 ^ 1020)) = PosInf
   \<and> pixelsToPoints (Fin (8256599316845909 / 1125899906842624)) = Fin 6
   \<and> \<lfloor>(8256599316845909 / 1125899906842624 :: real) * 72 / 96 + 1 / 2\<rfloor> = 5"
proof -
  have m: "js_mul (Fin (2 ^ 1020)) DOCUSIGN_DPI = PosInf"
    by (simp add: DOCUSIGN_DPI_def b64_eval [where L = 1026] round_even_def Let_def)
  have d: "js_div PosInf UI_DPI = PosInf"
    by (simp add: UI_DPI_def js_inf_def)
  have a: "pixelsToPoints (Fin (2 ^ 1020)) = PosInf"
    unfolding pixelsToPoints_def m d by (simp add: Math_max_def)
  have m2: "js_mul (Fin (8256599316845909 / 1125899906842624)) DOCUSIGN_DPI = Fin 528"
    by (simp add: DOCUSIGN_DPI_def b64_eval [where L = 9] round_even_def Let_def)
  have d2: "js_div (Fin 528) UI_DPI = Fin (11 / 2)"
    by (simp add: UI_DPI_def b64_half_numeral)
  have b: "pixelsToPoints (Fin (8256599316845909 / 1125899906842624)) = Fin 6"
    unfolding pixelsToPoints_def m2 d2 by (simp add: Math_max_def)
  have c: "\<lfloor>(8256599316845909 / 1125899906842624 :: real) * 72 / 96 + 1 / 2\<rfloor> = 5"
    by simp
  from a b c show ?thesis by blast
qed

text \<open>
  C7, amended: \<^verbatim>\<open>pixelsToPoints\<close> maps every negative or non-finite input to 0. For a
  finite input \<open>r \<ge> 0\<close> it returns \<^verbatim>\<open>Math.round\<close> of the binary64 value of
  \<open>(r * 72) / 96\<close>: \<open>+Infinity\<close> when \<open>r * 72\<close> overflows, that is from
  \<open>2^1024 - 2^970\<close> on, and below that a non-negative finite integer within
  \<open>1/2 + x / 2^51 + 2^-1074\<close> of \<open>x = r * 72 / 96\<close>. For an integer \<open>r\<close> up to \<open>2^46\<close> the
  result is exactly the integer nearest to \<open>r * 72 / 96\<close>, a tie going up.
\<close>

theorem pixelsToPoints_binary64:
  "(\<not> isFinite v \<or> js_lt v (Fin 0) \<longrightarrow> pixelsToPoints v = Fin 0)
   \<and> (pixelsToPoints v = PosInf \<or> (\<exists>n::int. 0 \<le> n \<and> pixelsToPoints v = Fin (of_int n)))
   \<and> (0 \<le> r \<longrightarrow> (isFinite (pixelsToPoints (Fin r)) \<longleftrightarrow> r * 72 < 2 ^ 1024 - 2 ^ 970))
   \<and> (0 \<le> r \<and> r * 72 < 2 ^ 1024 - 2 ^ 970 \<longrightarrow>
        (\<exists>n::int. 0 \<le> n \<and> pixelsToPoints (Fin r) = Fin (of_int n)
           \<and> \<bar>of_int n - r * 72 / 96\<bar> \<le> 1 / 2 + (r * 72 / 96) / 2 ^ 51 + 1 / 2 ^ 1074))
   \<and> (0 \<le> k \<and> k \<le> 2 ^ 46 \<longrightarrow>
        pixelsToPoints (Fin (of_int k)) = Fin (of_int \<lfloor>of_int k * 72 / 96 + 1 / (2::real)\<rfloor>))"
proof (intro conjI impI)
  assume "\<not> isFinite v \<or> js_lt v (Fin 0)"
  then show "pixelsToPoints v = Fin 0" by (rule pixelsToPoints_zero)
next
  show "pixelsToPoints v = PosInf \<or> (\<exists>n::int. 0 \<le> n \<and> pixelsToPoints v = Fin (of_int n))"
  proof (cases "\<not> isFinite v \<or> js_lt v (Fin 0)")
    case True
    then have "pixelsToPoints v = Fin (of_int 0)" by (simp add: pixelsToPoints_zero)
    then show ?thesis by blast
  next
    case False
    then obtain x where v: "v = Fin x" and x: "0 \<le> x" by (cases v) auto
    show ?thesis
    proof (cases "x * 72 < 2 ^ 1024 - 2 ^ 970")
      case True
      from pixelsToPoints_error [OF x True] v show ?thesis by blast
    next
      case False
      then have "2 ^ 1024 - 2 ^ 970 \<le> x * 72" by simp
      from pixelsToPoints_overflow [OF x this] v show ?thesis by simp
    qed
  qed
next
  assume r: "0 \<le> r"
  show "isFinite (pixelsToPoints (Fin r)) \<longleftrightarrow> r * 72 < 2 ^ 1024 - 2 ^ 970"
  proof (cases "r * 72 < 2 ^ 1024 - 2 ^ 970")
    case True
    from pixelsToPoints_finite(1) [OF r True] True show ?thesis by simp
  next
    case False
    then have "2 ^ 1024 - 2 ^ 970 \<le> r * 72" by simp
    from pixelsToPoints_overflow [OF r this] False show ?thesis by simp
  qed
next
  assume "0 \<le> r \<and> r * 72 < 2 ^ 1024 - 2 ^ 970"
  then show "\<exists>n::int. 0 \<le> n \<and> pixelsToPoints (Fin r) = Fin (of_int n)
           \<and> \<bar>of_int n - r * 72 / 96\<bar> \<le> 1 / 2 + (r * 72 / 96) / 2 ^ 51 + 1 / 2 ^ 1074"
    using pixelsToPoints_error [of r] by blast
next
  assume "0 \<le> k \<and> k \<le> 2 ^ 46"
  then show "pixelsToPoints (Fin (of_int k)) = Fin (of_int \<lfloor>of_int k * 72 / 96 + 1 / (2::real)\<rfloor>)"
    using pixelsToPoints_int [of k] by blast
qed

theorem pixelsToPoints_binary64_witness:
  "pixelsToPoints NaN = Fin 0 \<and> pixelsToPoints PosInf = Fin 0
   \<and> pixelsToPoints (Fin (- 3)) = Fin 0 \<and> pixelsToPoints (Fin 10) = Fin 8
   \<and> isFinite (pixelsToPoints (Fin 10))"
proof -
  have a: "pixelsToPoints NaN = Fin 0"
    using pixelsToPoints_binary64 [where v = NaN] by simp
  have b: "pixelsToPoints PosInf = Fin 0"
    using pixelsToPoints_binary64 [where v = PosInf] by simp
  have c: "pixelsToPoints (Fin (- 3)) = Fin 0"
    using pixelsToPoints_binary64 [where v = "Fin (- 3)"] by simp
  have "pixelsToPoints (Fin (of_int 10)) = Fin (of_int \<lfloor>of_int 10 * 72 / 96 + 1 / (2::real)\<rfloor>)"
    using pixelsToPoints_binary64 [where k = 10] by simp
  then have d: "pixelsToPoints (Fin 10) = Fin 8" by simp
  have e: "isFinite (pixelsToPoints (Fin 10))"
    using pixelsToPoints_binary64 [where r = 10] by simp
  from a b c d e show ?thesis by blast
qed





section \<open>Sessions as event sequences\<close>

lemma run_Nil: "run [] st = st"
  by (simp add: run_def)

lemma run_Cons: "run (ev # evs) st = run evs (step ev st)"
  by (simp add: run_def)

lemma run_append: "run (evs @ evs') st = run evs' (run evs st)"
  by (simp add: run_def)

lemma run_ref_Cons: "run_ref (ev # evs) st = run_ref evs (step_ref ev st)"
  by (simp add: run_ref_def)

lemma run_pt_Cons: "run_pt (ev # evs) st = run_pt evs (step_pt ev st)"
  by (simp add: run_pt_def)

text \<open>Unfolding sets for evaluating the example inputs and the handlers on them.\<close>

lemmas ex_defs = half_size_canvas_def unlaid_canvas_def enlarged_canvas_def mouse_at_def
  getCanvasCoordinates_def getCanvasCoordinates_ref_def js_sub_def b64_simps

lemmas handler_defs = run_def handleMouseDown_def handleMouseMove_def handleMouseUp_def
  getTopLeftCoordinates_def Let_def Math_min_def js_gt_def initial_state_def goToPage_def
  handleFileUpload_def

section \<open>Page navigation\<close>

text \<open>
  C5: for a page number outside \<open>[1, totalPages]\<close>, \<^verbatim>\<open>goToPage\<close> returns the state as it
  was (in the three variants, and with no error raised in the variant that can raise
  one); for a page number inside the bounds the current page becomes that number.
\<close>

theorem goToPage_bounds:
  "(pageNum < 1 \<or> totalPages st < pageNum \<longrightarrow>
      goToPage pageNum st = st \<and> goToPage_ref pageNum st = (st, None))
   \<and> (pageNum < 1 \<or> pt_totalPages pst < pageNum \<longrightarrow> goToPage_pt pageNum pst = pst)
   \<and> (1 \<le> pageNum \<and> pageNum \<le> totalPages st \<longrightarrow>
      currentPage (goToPage pageNum st) = pageNum
      \<and> currentPage (fst (goToPage_ref pageNum st)) = pageNum)
   \<and> (1 \<le> pageNum \<and> pageNum \<le> pt_totalPages pst \<longrightarrow>
      pt_currentPage (goToPage_pt pageNum pst) = pageNum)"
  by (simp add: goToPage_def goToPage_ref_def goToPage_pt_def)

theorem goToPage_bounds_witness:
  "goToPage 0 (initial_state\<lparr>totalPages := 3\<rparr> :: rectangle app_state) = initial_state\<lparr>totalPages := 3\<rparr>
   \<and> goToPage 4 (initial_state\<lparr>totalPages := 3\<rparr> :: rectangle app_state) = initial_state\<lparr>totalPages := 3\<rparr>
   \<and> goToPage_pt 4 (initial_pt_state\<lparr>pt_totalPages := 3\<rparr>) = initial_pt_state\<lparr>pt_totalPages := 3\<rparr>
   \<and> currentPage (goToPage 2 (initial_state\<lparr>totalPages := 3\<rparr> :: rectangle app_state)) = 2
   \<and> pt_currentPage (goToPage_pt 3 (initial_pt_state\<lparr>pt_totalPages := 3\<rparr>)) = 3"
  using goToPage_bounds [of 0 "initial_state\<lparr>totalPages := 3\<rparr> :: rectangle app_state" "initial_pt_state\<lparr>pt_totalPages := 3\<rparr>"]
    goToPage_bounds [of 4 "initial_state\<lparr>totalPages := 3\<rparr> :: rectangle app_state" "initial_pt_state\<lparr>pt_totalPages := 3\<rparr>"]
    goToPage_bounds [of 2 "initial_state\<lparr>totalPages := 3\<rparr> :: rectangle app_state" "initial_pt_state\<lparr>pt_totalPages := 3\<rparr>"]
    goToPage_bounds [of 3 "initial_state\<lparr>totalPages := 3\<rparr> :: rectangle app_state" "initial_pt_state\<lparr>pt_totalPages := 3\<rparr>"]
  by (simp add: initial_state_def initial_pt_state_def)

section \<open>Clearing a page\<close>

text \<open>
  C9: \<^verbatim>\<open>handleClearPage\<close> keeps exactly the rectangles whose page is not the current one:
  the rectangles of every other page are listed as before, the result is a subsequence of
  the old list (the insertion order is kept), and when no rectangle is on the current page
  the list is unchanged, as with two rectangles on page 1 and the current page 2.
\<close>

theorem handleClearPage_frame:
  fixes st :: "('a rectangle_scheme) app_state"
  shows "set (rectangles (handleClearPage st)) =
           {r \<in> set (rectangles st). r_pageNum r \<noteq> currentPage st}
   \<and> (\<forall>q. q \<noteq> currentPage st \<longrightarrow>
          filter (\<lambda>r. r_pageNum r = q) (rectangles (handleClearPage st)) =
          filter (\<lambda>r. r_pageNum r = q) (rectangles st))
   \<and> subseq (rectangles (handleClearPage st)) (rectangles st)
   \<and> ((\<forall>r \<in> set (rectangles st). r_pageNum r \<noteq> currentPage st) \<longrightarrow>
          rectangles (handleClearPage st) = rectangles st)
   \<and> currentPage (handleClearPage st) = currentPage st"
proof (intro conjI allI impI)
  show "set (rectangles (handleClearPage st)) =
           {r \<in> set (rectangles st). r_pageNum r \<noteq> currentPage st}"
    by (simp add: handleClearPage_def)
next
  fix q assume "q \<noteq> currentPage st"
  then have "filter (\<lambda>r. r_pageNum r = q) (filter (\<lambda>r. r_pageNum r \<noteq> currentPage st) xs) =
      filter (\<lambda>r. r_pageNum r = q) xs" for xs :: "('a rectangle_scheme) list"
    by (induction xs) auto
  moreover have "rectangles (handleClearPage st) =
      filter (\<lambda>r. r_pageNum r \<noteq> currentPage st) (rectangles st)"
    by (simp add: handleClearPage_def)
  ultimately show "filter (\<lambda>r. r_pageNum r = q) (rectangles (handleClearPage st)) =
          filter (\<lambda>r. r_pageNum r = q) (rectangles st)"
    by (simp only:)
next
  show "subseq (rectangles (handleClearPage st)) (rectangles st)"
    by (simp add: handleClearPage_def)
next
  assume "\<forall>r \<in> set (rectangles st). r_pageNum r \<noteq> currentPage st"
  then show "rectangles (handleClearPage st) = rectangles st"
    by (simp add: handleClearPage_def)
next
  show "currentPage (handleClearPage st) = currentPage st"
    by (simp add: handleClearPage_def)
qed

theorem handleClearPage_frame_witness:
  "rectangles (handleClearPage two_on_page_one) = rectangles two_on_page_one
   \<and> length (rectangles (handleClearPage two_on_page_one)) = 2"
  using handleClearPage_frame [of two_on_page_one]
  by (simp add: two_on_page_one_def)

section \<open>The coordinate transform\<close>

text \<open>
  C6, as stated, fails on the plain variant: on a box of zero area its
  \<^verbatim>\<open>getCanvasCoordinates\<close> divides by zero and returns a position with infinite
  coordinates, not null.
\<close>

theorem getCanvasCoordinates_unguarded_counterexample:
  "getCanvasCoordinates (Some unlaid_canvas) \<lparr>clientX = Fin 10, clientY = Fin 20\<rparr>
     = Some \<lparr>pos_x = PosInf, pos_y = PosInf\<rparr>"
  by (simp add: getCanvasCoordinates_def unlaid_canvas_def js_sub_def js_inf_def b64_simps)

text \<open>
  C6, amended: with the scale factors \<open>canvas.width / rect.width\<close> and
  \<open>canvas.height / rect.height\<close>, the two checked variants return null when there is no
  canvas, when the box has zero width or height, and when a scale factor or a coordinate
  is not finite, and the scaled position otherwise (the point-marker variant with
  \<open>max(0, y - 10)\<close> for \<open>y\<close>); the plain variant returns null only when there is no
  canvas and the scaled position otherwise, finite or not.
\<close>

theorem getCanvasCoordinates_guarded:
  fixes cv :: canvas and e :: mouse_event
  defines "scaleX \<equiv> js_div (canvas_width cv) (rect_width cv)"
    and "scaleY \<equiv> js_div (canvas_height cv) (rect_height cv)"
  defines "x \<equiv> js_mul (js_sub (clientX e) (rect_left cv)) scaleX"
    and "y \<equiv> js_mul (js_sub (clientY e) (rect_top cv)) scaleY"
  defines "bad \<equiv> rect_width cv = Fin 0 \<or> rect_height cv = Fin 0
                  \<or> \<not> isFinite scaleX \<or> \<not> isFinite scaleY \<or> \<not> isFinite x"
  shows "getCanvasCoordinates_ref None e = None \<and> getCanvasCoordinates_pt None e = None
    \<and> getCanvasCoordinates_ref (Some cv) e =
         (if bad \<or> \<not> isFinite y then None else Some \<lparr>pos_x = x, pos_y = y\<rparr>)
    \<and> getCanvasCoordinates_pt (Some cv) e =
         (if bad \<or> \<not> isFinite (Math_max (Fin 0) (js_sub y (Fin 10))) then None
          else Some \<lparr>pos_x = x, pos_y = Math_max (Fin 0) (js_sub y (Fin 10))\<rparr>)
    \<and> getCanvasCoordinates None e = None
    \<and> getCanvasCoordinates (Some cv) e = Some \<lparr>pos_x = x, pos_y = y\<rparr>"
  unfolding bad_def x_def y_def scaleX_def scaleY_def
  by (simp add: getCanvasCoordinates_ref_def getCanvasCoordinates_pt_def
      getCanvasCoordinates_def Let_def)

theorem getCanvasCoordinates_guarded_witness:
  "getCanvasCoordinates_ref (Some unlaid_canvas) \<lparr>clientX = Fin 10, clientY = Fin 20\<rparr> = None
   \<and> getCanvasCoordinates_pt (Some unlaid_canvas) \<lparr>clientX = Fin 10, clientY = Fin 20\<rparr> = None
   \<and> getCanvasCoordinates_ref (Some half_size_canvas) \<lparr>clientX = Fin 110, clientY = Fin 70\<rparr>
       = Some \<lparr>pos_x = Fin 200, pos_y = Fin 100\<rparr>
   \<and> getCanvasCoordinates_pt (Some half_size_canvas) \<lparr>clientX = Fin 110, clientY = Fin 70\<rparr>
       = Some \<lparr>pos_x = Fin 200, pos_y = Fin 90\<rparr>"
  using getCanvasCoordinates_guarded [where cv = unlaid_canvas and e = "\<lparr>clientX = Fin 10, clientY = Fin 20\<rparr>"]
    getCanvasCoordinates_guarded [where cv = half_size_canvas and e = "\<lparr>clientX = Fin 110, clientY = Fin 70\<rparr>"]
  by (simp add: unlaid_canvas_def half_size_canvas_def js_sub_def Math_max_def b64_simps)

section \<open>Releasing the mouse\<close>

text \<open>
  C10: when a drag is active and the position of the release is null, \<^verbatim>\<open>handleMouseUp\<close>
  returns the state as it was in both rectangle variants: nothing is committed, and
  \<^verbatim>\<open>isDrawing\<close>, \<^verbatim>\<open>startPos\<close> and \<^verbatim>\<open>currentRect\<close> stay. In the checked variant a box of
  zero width or height at the release makes the position null.
\<close>

theorem handleMouseUp_null_position:
  "(isDrawing st \<and> startPos st = Some sp \<and> getCanvasCoordinates cv e = None \<longrightarrow>
      handleMouseUp cv e now st = st \<and> isDrawing (handleMouseUp cv e now st))
   \<and> (isDrawing st' \<and> startPos st' = Some sp' \<and> getCanvasCoordinates_ref cv e = None \<longrightarrow>
      handleMouseUp_ref cv e now st' = st' \<and> isDrawing (handleMouseUp_ref cv e now st'))
   \<and> (rect_width c = Fin 0 \<or> rect_height c = Fin 0 \<longrightarrow>
      getCanvasCoordinates_ref (Some c) e = None)"
  by (simp add: handleMouseUp_def handleMouseUp_ref_def getCanvasCoordinates_ref_def)

theorem handleMouseUp_null_position_witness:
  "handleMouseUp_ref (Some unlaid_canvas) (mouse_at 150 120) 1000
     (handleMouseDown_ref (Some half_size_canvas) (mouse_at 110 70) initial_state)
   = handleMouseDown_ref (Some half_size_canvas) (mouse_at 110 70) initial_state
   \<and> isDrawing (handleMouseUp_ref (Some unlaid_canvas) (mouse_at 150 120) 1000
     (handleMouseDown_ref (Some half_size_canvas) (mouse_at 110 70) initial_state))
   \<and> handleMouseUp None (mouse_at 150 120) 1000
       (handleMouseDown (Some half_size_canvas) (mouse_at 110 70) initial_state)
   = handleMouseDown (Some half_size_canvas) (mouse_at 110 70) initial_state"
proof -
  define d :: "rectangle_pts app_state" where
    "d = handleMouseDown_ref (Some half_size_canvas) (mouse_at 110 70) initial_state"
  define d' :: "rectangle app_state" where
    "d' = handleMouseDown (Some half_size_canvas) (mouse_at 110 70) initial_state"
  have d: "isDrawing d" "startPos d = Some \<lparr>pos_x = Fin 200, pos_y = Fin 100\<rparr>"
    by (simp_all add: d_def ex_defs handleMouseDown_ref_def)
  have d': "isDrawing d'" "startPos d' = Some \<lparr>pos_x = Fin 200, pos_y = Fin 100\<rparr>"
    by (simp_all add: d'_def ex_defs handleMouseDown_def)
  have z: "rect_width unlaid_canvas = Fin 0" by (simp add: unlaid_canvas_def)
  have n: "getCanvasCoordinates None (mouse_at 150 120) = None"
    by (simp add: getCanvasCoordinates_def)
  note t = handleMouseUp_null_position [where st = d' and st' = d
      and sp = "\<lparr>pos_x = Fin 200, pos_y = Fin 100\<rparr>" and sp' = "\<lparr>pos_x = Fin 200, pos_y = Fin 100\<rparr>"
      and c = unlaid_canvas and e = "mouse_at 150 120" and now = 1000]
  from t [where cv = "Some unlaid_canvas"] z d
  have a: "handleMouseUp_ref (Some unlaid_canvas) (mouse_at 150 120) 1000 d = d
     \<and> isDrawing (handleMouseUp_ref (Some unlaid_canvas) (mouse_at 150 120) 1000 d)"
    by blast
  from t [where cv = None] n d'
  have b: "handleMouseUp None (mouse_at 150 120) 1000 d' = d'"
    by blast
  from a b show ?thesis unfolding d_def d'_def by blast
qed

section \<open>A drag gesture\<close>

lemma moves_track_last_pos:
  assumes "isDrawing s" and "startPos s = Some p1"
    and "currentRect s = Some \<lparr>cr_x1 = pos_x p1, cr_y1 = pos_y p1, cr_x2 = pos_x p, cr_y2 = pos_y p\<rparr>"
  shows "run (map (\<lambda>(cv, e). MouseMove cv e) moves) s =
     s\<lparr>currentRect := Some \<lparr>cr_x1 = pos_x p1, cr_y1 = pos_y p1,
                              cr_x2 = pos_x (last_pos p moves), cr_y2 = pos_y (last_pos p moves)\<rparr>\<rparr>"
  using assms
proof (induction moves arbitrary: s p)
  case Nil
  then show ?case by (simp add: run_Nil)
next
  case (Cons m moves)
  obtain cv e where m: "m = (cv, e)" by (cases m)
  show ?case
  proof (cases "getCanvasCoordinates cv e")
    case None
    with Cons.prems have "step (MouseMove cv e) s = s"
      by (simp add: handleMouseMove_def)
    with Cons.IH [OF Cons.prems] None m show ?thesis
      by (simp add: run_Cons)
  next
    case (Some q)
    let ?s' = "s\<lparr>currentRect := Some \<lparr>cr_x1 = pos_x p1, cr_y1 = pos_y p1,
                              cr_x2 = pos_x q, cr_y2 = pos_y q\<rparr>\<rparr>"
    from Cons.prems Some have stp: "handleMouseMove cv e s = ?s'"
      by (simp add: handleMouseMove_def)
    from Cons.prems have "isDrawing ?s'" and "startPos ?s' = Some p1"
      and "currentRect ?s' = Some \<lparr>cr_x1 = pos_x p1, cr_y1 = pos_y p1, cr_x2 = pos_x q, cr_y2 = pos_y q\<rparr>"
      by simp_all
    from Cons.IH [OF this] have "run (map (\<lambda>(cv, e). MouseMove cv e) moves) ?s' =
       ?s'\<lparr>currentRect := Some \<lparr>cr_x1 = pos_x p1, cr_y1 = pos_y p1,
                              cr_x2 = pos_x (last_pos q moves), cr_y2 = pos_y (last_pos q moves)\<rparr>\<rparr>" .
    with Some m stp show ?thesis
      by (simp add: run_Cons)
  qed
qed

text \<open>
  C1, as stated, fails on the code. A press at (2.5, 4), a move to (82.5, 44) and a release
  there commit the rectangle with \<open>x = 3\<close>, not \<open>min(2.5, 82.5) = 2.5\<close>: the four fields are
  rounded. And a press followed by a release far away, with no move between them, commits
  nothing: the rectangle ends at the last move, not at the release.
\<close>

theorem gesture_rectangle_counterexample:
  "getCanvasCoordinates (Some enlarged_canvas) (mouse_at 5 8)
     = Some \<lparr>pos_x = Fin (5 / 2), pos_y = Fin 4\<rparr>
   \<and> getCanvasCoordinates (Some enlarged_canvas) (mouse_at 165 88)
     = Some \<lparr>pos_x = Fin (165 / 2), pos_y = Fin 44\<rparr>
   \<and> Math_min (Fin (5 / 2)) (Fin (165 / 2)) = Fin (5 / 2)
   \<and> rectangles (run [MouseDown (Some enlarged_canvas) (mouse_at 5 8),
                      MouseMove (Some enlarged_canvas) (mouse_at 165 88),
                      MouseUp (Some enlarged_canvas) (mouse_at 165 88) 1000] initial_state)
     = [\<lparr>r_x = Fin 3, r_y = Fin 4, r_width = Fin 80, r_height = Fin 40,
         r_pageNum = 1, r_id = 1000\<rparr>]
   \<and> rectangles (run [MouseDown (Some enlarged_canvas) (mouse_at 5 8),
                      MouseUp (Some enlarged_canvas) (mouse_at 165 88) 1000] initial_state)
     = []"
  by (simp add: ex_defs handler_defs)

text \<open>
  C1, amended: for a press at \<open>p1\<close>, any moves and a release, where the positions of the
  press and of the release are not null, let \<open>p2\<close> be the position of the last move with a
  position (\<open>p1\<close> if there is none). When the rounded width \<open>round |x2 - x1|\<close> and the
  rounded height both exceed 5, exactly one rectangle is appended, with
  \<open>x = round (min x1 x2)\<close>, \<open>y = round (min y1 y2)\<close>, that width and height, the current
  page and the clock reading as id; otherwise none is. In both cases the drawing state is
  reset and the page is unchanged.
\<close>

theorem gesture_commits_rounded_rectangle:
  fixes moves :: "(canvas option \<times> mouse_event) list" and st :: "rectangle app_state"
    and p1 p3 :: point and now :: int
  assumes down: "getCanvasCoordinates cv0 e0 = Some p1"
    and up: "getCanvasCoordinates cv3 e3 = Some p3"
  defines "p2 \<equiv> last_pos p1 moves"
  defines "width \<equiv> Math_round (Math_abs (js_sub (pos_x p2) (pos_x p1)))"
    and "height \<equiv> Math_round (Math_abs (js_sub (pos_y p2) (pos_y p1)))"
  defines "st' \<equiv> run (MouseDown cv0 e0 # map (\<lambda>(cv, e). MouseMove cv e) moves @ [MouseUp cv3 e3 now]) st"
  shows "rectangles st' =
      (if js_gt width (Fin 5) \<and> js_gt height (Fin 5)
       then rectangles st @
            [\<lparr>r_x = Math_round (Math_min (pos_x p1) (pos_x p2)),
              r_y = Math_round (Math_min (pos_y p1) (pos_y p2)),
              r_width = width, r_height = height,
              r_pageNum = currentPage st, r_id = now\<rparr>]
       else rectangles st)
    \<and> \<not> isDrawing st' \<and> startPos st' = None \<and> currentRect st' = None
    \<and> currentPage st' = currentPage st"
proof -
  define s1 where "s1 = step (MouseDown cv0 e0) st"
  from down have s1: "s1 = st\<lparr>isDrawing := True, startPos := Some p1,
       currentRect := Some \<lparr>cr_x1 = pos_x p1, cr_y1 = pos_y p1, cr_x2 = pos_x p1, cr_y2 = pos_y p1\<rparr>\<rparr>"
    by (simp add: s1_def handleMouseDown_def)
  then have "isDrawing s1" and "startPos s1 = Some p1"
    and "currentRect s1 = Some \<lparr>cr_x1 = pos_x p1, cr_y1 = pos_y p1, cr_x2 = pos_x p1, cr_y2 = pos_y p1\<rparr>"
    by simp_all
  from moves_track_last_pos [OF this, of moves]
  have s2: "run (map (\<lambda>(cv, e). MouseMove cv e) moves) s1 =
     st\<lparr>isDrawing := True, startPos := Some p1,
        currentRect := Some \<lparr>cr_x1 = pos_x p1, cr_y1 = pos_y p1, cr_x2 = pos_x p2, cr_y2 = pos_y p2\<rparr>\<rparr>"
    by (simp add: s1 p2_def)
  have "st' = handleMouseUp cv3 e3 now (run (map (\<lambda>(cv, e). MouseMove cv e) moves) s1)"
    by (simp add: st'_def run_Cons run_append run_Nil s1_def)
  with s2 have st': "st' = handleMouseUp cv3 e3 now
     (st\<lparr>isDrawing := True, startPos := Some p1,
        currentRect := Some \<lparr>cr_x1 = pos_x p1, cr_y1 = pos_y p1, cr_x2 = pos_x p2, cr_y2 = pos_y p2\<rparr>\<rparr>)"
    by simp
  show ?thesis
    unfolding st' width_def height_def
    by (simp add: handleMouseUp_def up getTopLeftCoordinates_def Let_def)
qed

theorem gesture_commits_rounded_rectangle_witness:
  "rectangles (run (MouseDown (Some half_size_canvas) (mouse_at 110 70)
        # map (\<lambda>(cv, e). MouseMove cv e) [(Some half_size_canvas, mouse_at 150 120)]
        @ [MouseUp (Some half_size_canvas) (mouse_at 150 120) 1000]) initial_state)
     = [\<lparr>r_x = Fin 200, r_y = Fin 100, r_width = Fin 80, r_height = Fin 100,
         r_pageNum = 1, r_id = 1000\<rparr>]"
proof -
  have d: "getCanvasCoordinates (Some half_size_canvas) (mouse_at 110 70)
             = Some \<lparr>pos_x = Fin 200, pos_y = Fin 100\<rparr>"
    by (simp add: ex_defs)
  have u: "getCanvasCoordinates (Some half_size_canvas) (mouse_at 150 120)
             = Some \<lparr>pos_x = Fin 280, pos_y = Fin 200\<rparr>"
    by (simp add: ex_defs)
  from gesture_commits_rounded_rectangle [OF d u,
      where moves = "[(Some half_size_canvas, mouse_at 150 120)]" and now = 1000
        and st = initial_state]
  show ?thesis
    by (simp add: u Math_min_def js_sub_def b64_simps js_gt_def initial_state_def)
qed

section \<open>Navigating during a drag\<close>

text \<open>
  C2 does not hold on the code. In the plain variant \<^verbatim>\<open>goToPage\<close> clears \<^verbatim>\<open>currentRect\<close>
  only: after a press on page 1 and a change to page 2 the drag is still active with its
  start position, and a move and a release then commit a rectangle on page 2. In the
  variant with DocuSign points \<^verbatim>\<open>goToPage\<close> does not touch the drawing state, and the
  release alone commits the rectangle on page 2.
\<close>

theorem goToPage_keeps_gesture:
  "isDrawing (run [FileUpload 2, MouseDown (Some half_size_canvas) (mouse_at 110 70),
                   GoToPage 2] initial_state)
   \<and> startPos (run [FileUpload 2, MouseDown (Some half_size_canvas) (mouse_at 110 70),
                   GoToPage 2] initial_state) = Some \<lparr>pos_x = Fin 200, pos_y = Fin 100\<rparr>
   \<and> rectangles (run [FileUpload 2, MouseDown (Some half_size_canvas) (mouse_at 110 70),
                   GoToPage 2, MouseMove (Some half_size_canvas) (mouse_at 150 120),
                   MouseUp (Some half_size_canvas) (mouse_at 150 120) 1000] initial_state)
     = [\<lparr>r_x = Fin 200, r_y = Fin 100, r_width = Fin 80, r_height = Fin 100,
         r_pageNum = 2, r_id = 1000\<rparr>]
   \<and> map r_pageNum (rectangles (run_ref [FileUpload 2,
                   MouseDown (Some half_size_canvas) (mouse_at 110 70),
                   MouseMove (Some half_size_canvas) (mouse_at 150 120),
                   GoToPage 2,
                   MouseUp (Some half_size_canvas) (mouse_at 150 120) 1000] initial_state))
     = [2]"
  by (simp add: ex_defs handler_defs run_ref_def handleMouseDown_ref_def handleMouseMove_ref_def
      handleMouseUp_ref_def handleFileUpload_ref_def goToPage_ref_def)

section \<open>The size threshold\<close>

lemma js_gt_5_imp_0: "js_gt v (Fin 5) \<Longrightarrow> js_gt v (Fin 0)"
  by (cases v) (simp_all add: js_gt_def)

lemma handleMouseUp_rectangles:
  "rectangles (handleMouseUp cv e now s) = rectangles s
   \<or> (\<exists>r. rectangles (handleMouseUp cv e now s) = rectangles s @ [r] \<and> r_id r = now
         \<and> r_pageNum r = currentPage s
         \<and> js_gt (r_width r) (Fin 5) \<and> js_gt (r_height r) (Fin 5))"
  by (simp add: handleMouseUp_def Let_def split: option.splits)

lemma handleMouseUp_ref_rectangles:
  "rectangles (handleMouseUp_ref cv e now s) = rectangles s
   \<or> (\<exists>r. rectangles (handleMouseUp_ref cv e now s) = rectangles s @ [r] \<and> r_id r = now
         \<and> r_pageNum r = currentPage s
         \<and> js_gt (r_width r) (Fin 5) \<and> js_gt (r_height r) (Fin 5))"
  by (simp add: handleMouseUp_ref_def Let_def split: option.splits)

lemma handleCanvasClick_points:
  "signaturePoints (handleCanvasClick cv e now s) = signaturePoints s
   \<or> (\<exists>p. signaturePoints (handleCanvasClick cv e now s) = signaturePoints s @ [p] \<and> sp_id p = now
         \<and> sp_pageNum p = pt_currentPage s)"
  by (simp add: handleCanvasClick_def Let_def split: option.splits)

lemma step_rectangles:
  "rectangles (step ev s) = []
   \<or> (\<exists>P. rectangles (step ev s) = filter P (rectangles s))
   \<or> (\<exists>r now cv e. ev = MouseUp cv e now \<and> rectangles (step ev s) = rectangles s @ [r] \<and> r_id r = now
         \<and> js_gt (r_width r) (Fin 5) \<and> js_gt (r_height r) (Fin 5))"
proof (cases ev)
  case (MouseDown cv e)
  then have "rectangles (step ev s) = filter (\<lambda>r. True) (rectangles s)"
    by (simp add: handleMouseDown_def split: option.splits)
  then show ?thesis by blast
next
  case (MouseMove cv e)
  then have "rectangles (step ev s) = filter (\<lambda>r. True) (rectangles s)"
    by (simp add: handleMouseMove_def split: option.splits)
  then show ?thesis by blast
next
  case (MouseUp cv e now)
  with handleMouseUp_rectangles [of cv e now s]
  have "rectangles (step ev s) = filter (\<lambda>r. True) (rectangles s)
    \<or> (\<exists>r. rectangles (step ev s) = rectangles s @ [r] \<and> r_id r = now
         \<and> js_gt (r_width r) (Fin 5) \<and> js_gt (r_height r) (Fin 5))"
    by auto
  with MouseUp show ?thesis by blast
next
  case MouseLeave
  then have "rectangles (step ev s) = filter (\<lambda>r. True) (rectangles s)"
    by (simp add: handleMouseLeave_def)
  then show ?thesis by blast
next
  case (GoToPage n)
  then have "rectangles (step ev s) = filter (\<lambda>r. True) (rectangles s)"
    by (simp add: goToPage_def)
  then show ?thesis by blast
next
  case (DeleteRect i)
  then have "rectangles (step ev s) = filter (\<lambda>r. r_id r \<noteq> i) (rectangles s)"
    by (simp add: handleDeleteRect_def)
  then show ?thesis by blast
next
  case ClearPage
  then have "rectangles (step ev s) = filter (\<lambda>r. r_pageNum r \<noteq> currentPage s) (rectangles s)"
    by (simp add: handleClearPage_def)
  then show ?thesis by blast
next
  case (FileUpload n)
  then have "rectangles (step ev s) = []"
    by (simp add: handleFileUpload_def)
  then show ?thesis by blast
qed

lemma step_ref_rectangles:
  "rectangles (step_ref ev s) = []
   \<or> (\<exists>P. rectangles (step_ref ev s) = filter P (rectangles s))
   \<or> (\<exists>r now cv e. ev = MouseUp cv e now \<and> rectangles (step_ref ev s) = rectangles s @ [r] \<and> r_id r = now
         \<and> js_gt (r_width r) (Fin 5) \<and> js_gt (r_height r) (Fin 5))"
proof (cases ev)
  case (MouseDown cv e)
  then have "rectangles (step_ref ev s) = filter (\<lambda>r. True) (rectangles s)"
    by (simp add: handleMouseDown_ref_def split: option.splits)
  then show ?thesis by blast
next
  case (MouseMove cv e)
  then have "rectangles (step_ref ev s) = filter (\<lambda>r. True) (rectangles s)"
    by (simp add: handleMouseMove_ref_def split: option.splits)
  then show ?thesis by blast
next
  case (MouseUp cv e now)
  with handleMouseUp_ref_rectangles [of cv e now s]
  have "rectangles (step_ref ev s) = filter (\<lambda>r. True) (rectangles s)
    \<or> (\<exists>r. rectangles (step_ref ev s) = rectangles s @ [r] \<and> r_id r = now
         \<and> js_gt (r_width r) (Fin 5) \<and> js_gt (r_height r) (Fin 5))"
    by auto
  with MouseUp show ?thesis by blast
next
  case MouseLeave
  then have "rectangles (step_ref ev s) = filter (\<lambda>r. True) (rectangles s)"
    by (simp add: handleMouseLeave_def)
  then show ?thesis by blast
next
  case (GoToPage n)
  then have "rectangles (step_ref ev s) = filter (\<lambda>r. True) (rectangles s)"
    by (simp add: goToPage_ref_def)
  then show ?thesis by blast
next
  case (DeleteRect i)
  then have "rectangles (step_ref ev s) = filter (\<lambda>r. r_id r \<noteq> i) (rectangles s)"
    by (simp add: handleDeleteRect_def)
  then show ?thesis by blast
next
  case ClearPage
  then have "rectangles (step_ref ev s) = filter (\<lambda>r. r_pageNum r \<noteq> currentPage s) (rectangles s)"
    by (simp add: handleClearPage_def)
  then show ?thesis by blast
next
  case (FileUpload n)
  then have "rectangles (step_ref ev s) = []"
    by (simp add: handleFileUpload_ref_def)
  then show ?thesis by blast
qed

lemma min_size_step: "min_size (rectangles s) \<Longrightarrow> min_size (rectangles (step ev s))"
  using step_rectangles [of ev s]
  by (auto simp: min_size_def list_all_iff)

lemma min_size_step_ref: "min_size (rectangles s) \<Longrightarrow> min_size (rectangles (step_ref ev s))"
  using step_ref_rectangles [of ev s]
  by (auto simp: min_size_def list_all_iff)

lemma min_size_run: "min_size (rectangles s) \<Longrightarrow> min_size (rectangles (run evs s))"
  by (induction evs arbitrary: s) (simp_all add: run_Nil run_Cons min_size_step)

lemma min_size_run_ref: "min_size (rectangles s) \<Longrightarrow> min_size (rectangles (run_ref evs s))"
proof (induction evs arbitrary: s)
  case Nil
  then show ?case by (simp add: run_ref_def)
next
  case (Cons ev evs)
  then show ?case by (simp add: run_ref_Cons min_size_step_ref)
qed

text \<open>
  C4, as stated, fails on the code: a gesture below the threshold can leave the drag
  active. In the checked variant a drag of 4 by 100 pixels released on a box of zero area
  adds nothing and keeps \<^verbatim>\<open>isDrawing\<close>; in the plain variant so does a press followed by a
  change of page and a release. In both \<^verbatim>\<open>handleMouseUp\<close> returns before the size test.
\<close>

theorem small_gesture_stays_active_counterexample:
  "isDrawing (run_ref [MouseDown (Some half_size_canvas) (mouse_at 110 70),
                       MouseMove (Some half_size_canvas) (mouse_at 112 120),
                       MouseUp (Some unlaid_canvas) (mouse_at 112 120) 1000] initial_state)
   \<and> currentRect (run_ref [MouseDown (Some half_size_canvas) (mouse_at 110 70),
                       MouseMove (Some half_size_canvas) (mouse_at 112 120),
                       MouseUp (Some unlaid_canvas) (mouse_at 112 120) 1000] initial_state)
     = Some \<lparr>cr_x1 = Fin 200, cr_y1 = Fin 100, cr_x2 = Fin 204, cr_y2 = Fin 200\<rparr>
   \<and> rectangles (run_ref [MouseDown (Some half_size_canvas) (mouse_at 110 70),
                       MouseMove (Some half_size_canvas) (mouse_at 112 120),
                       MouseUp (Some unlaid_canvas) (mouse_at 112 120) 1000] initial_state)
     = []
   \<and> isDrawing (run [FileUpload 2, MouseDown (Some half_size_canvas) (mouse_at 110 70),
                     GoToPage 2,
                     MouseUp (Some half_size_canvas) (mouse_at 110 70) 1000] initial_state)
   \<and> rectangles (run [FileUpload 2, MouseDown (Some half_size_canvas) (mouse_at 110 70),
                     GoToPage 2,
                     MouseUp (Some half_size_canvas) (mouse_at 110 70) 1000] initial_state)
     = []"
  by (simp add: ex_defs handler_defs run_ref_def handleMouseDown_ref_def handleMouseMove_ref_def
      handleMouseUp_ref_def)

text \<open>
  C4, amended: when a release reaches the size test (a drag is active with its start
  position and its current rectangle, and the position of the release is not null) and
  the rounded width or height is not above 5, \<^verbatim>\<open>handleMouseUp\<close> adds nothing and resets
  the drawing state, in both rectangle variants; and in every session from the initial
  state every committed rectangle has width and height above 5, hence above 0.
\<close>

theorem small_rectangle_discarded:
  fixes st :: "rectangle app_state" and st' :: "rectangle_pts app_state" and cr :: drag_rect
  defines "c \<equiv> getTopLeftCoordinates (cr_x1 cr) (cr_y1 cr) (cr_x2 cr) (cr_y2 cr)"
  shows "(isDrawing st \<and> startPos st = Some sp \<and> getCanvasCoordinates cv e = Some pos
        \<and> currentRect st = Some cr
        \<and> (\<not> js_gt (r_width c) (Fin 5) \<or> \<not> js_gt (r_height c) (Fin 5)) \<longrightarrow>
      handleMouseUp cv e now st = st\<lparr>isDrawing := False, startPos := None, currentRect := None\<rparr>)
   \<and> (isDrawing st' \<and> startPos st' = Some sp \<and> getCanvasCoordinates_ref cv e = Some pos
        \<and> currentRect st' = Some cr
        \<and> (\<not> js_gt (r_width c) (Fin 5) \<or> \<not> js_gt (r_height c) (Fin 5)) \<longrightarrow>
      handleMouseUp_ref cv e now st' = st'\<lparr>isDrawing := False, startPos := None, currentRect := None\<rparr>)
   \<and> (\<forall>r \<in> set (rectangles (run evs initial_state)).
         js_gt (r_width r) (Fin 5) \<and> js_gt (r_height r) (Fin 5)
         \<and> js_gt (r_width r) (Fin 0) \<and> js_gt (r_height r) (Fin 0))
   \<and> (\<forall>r \<in> set (rectangles (run_ref evs initial_state)).
         js_gt (r_width r) (Fin 5) \<and> js_gt (r_height r) (Fin 5)
         \<and> js_gt (r_width r) (Fin 0) \<and> js_gt (r_height r) (Fin 0))"
proof (intro conjI impI ballI)
  assume "isDrawing st \<and> startPos st = Some sp \<and> getCanvasCoordinates cv e = Some pos
        \<and> currentRect st = Some cr
        \<and> (\<not> js_gt (r_width c) (Fin 5) \<or> \<not> js_gt (r_height c) (Fin 5))"
  then show "handleMouseUp cv e now st = st\<lparr>isDrawing := False, startPos := None, currentRect := None\<rparr>"
    unfolding c_def by (auto simp: handleMouseUp_def Let_def)
next
  assume "isDrawing st' \<and> startPos st' = Some sp \<and> getCanvasCoordinates_ref cv e = Some pos
        \<and> currentRect st' = Some cr
        \<and> (\<not> js_gt (r_width c) (Fin 5) \<or> \<not> js_gt (r_height c) (Fin 5))"
  then show "handleMouseUp_ref cv e now st' = st'\<lparr>isDrawing := False, startPos := None, currentRect := None\<rparr>"
    unfolding c_def by (auto simp: handleMouseUp_ref_def Let_def)
next
  fix r :: rectangle assume r: "r \<in> set (rectangles (run evs initial_state))"
  have "min_size (rectangles (run evs (initial_state :: rectangle app_state)))"
    by (rule min_size_run) (simp add: min_size_def initial_state_def)
  with r have a: "js_gt (r_width r) (Fin 5)" and b: "js_gt (r_height r) (Fin 5)"
    by (auto simp: min_size_def list_all_iff)
  from a show "js_gt (r_width r) (Fin 5)" .
  from b show "js_gt (r_height r) (Fin 5)" .
  from a show "js_gt (r_width r) (Fin 0)" by (rule js_gt_5_imp_0)
  from b show "js_gt (r_height r) (Fin 0)" by (rule js_gt_5_imp_0)
next
  fix r :: rectangle_pts assume r: "r \<in> set (rectangles (run_ref evs initial_state))"
  have "min_size (rectangles (run_ref evs (initial_state :: rectangle_pts app_state)))"
    by (rule min_size_run_ref) (simp add: min_size_def initial_state_def)
  with r have a: "js_gt (r_width r) (Fin 5)" and b: "js_gt (r_height r) (Fin 5)"
    by (auto simp: min_size_def list_all_iff)
  from a show "js_gt (r_width r) (Fin 5)" .
  from b show "js_gt (r_height r) (Fin 5)" .
  from a show "js_gt (r_width r) (Fin 0)" by (rule js_gt_5_imp_0)
  from b show "js_gt (r_height r) (Fin 0)" by (rule js_gt_5_imp_0)
qed

theorem small_rectangle_discarded_witness:
  "run [MouseDown (Some half_size_canvas) (mouse_at 110 70),
        MouseMove (Some half_size_canvas) (mouse_at 112 120),
        MouseUp (Some half_size_canvas) (mouse_at 112 120) 1000] initial_state = initial_state
   \<and> list_all (\<lambda>r. js_gt (r_width r) (Fin 0) \<and> js_gt (r_height r) (Fin 0))
        (rectangles (run [MouseDown (Some half_size_canvas) (mouse_at 110 70),
           MouseMove (Some half_size_canvas) (mouse_at 150 120),
           MouseUp (Some half_size_canvas) (mouse_at 150 120) 1000] initial_state))
   \<and> length (rectangles (run [MouseDown (Some half_size_canvas) (mouse_at 110 70),
           MouseMove (Some half_size_canvas) (mouse_at 150 120),
           MouseUp (Some half_size_canvas) (mouse_at 150 120) 1000] initial_state)) = 1"
proof -
  define cr where "cr = \<lparr>cr_x1 = Fin 200, cr_y1 = Fin 100, cr_x2 = Fin 204, cr_y2 = Fin 200\<rparr>"
  define st :: "rectangle app_state" where
    "st = run [MouseDown (Some half_size_canvas) (mouse_at 110 70),
               MouseMove (Some half_size_canvas) (mouse_at 112 120)] initial_state"
  have st: "st = \<lparr>currentPage = 1, totalPages = 0, rectangles = [], currentRect = Some cr,
      isDrawing = True, startPos = Some \<lparr>pos_x = Fin 200, pos_y = Fin 100\<rparr>\<rparr>"
    by (simp add: st_def cr_def ex_defs handler_defs)
  have u: "getCanvasCoordinates (Some half_size_canvas) (mouse_at 112 120)
      = Some \<lparr>pos_x = Fin 204, pos_y = Fin 200\<rparr>"
    by (simp add: ex_defs)
  have w: "\<not> js_gt (r_width (getTopLeftCoordinates (cr_x1 cr) (cr_y1 cr) (cr_x2 cr) (cr_y2 cr))) (Fin 5)"
    by (simp add: cr_def handler_defs js_sub_def b64_simps)
  note t = small_rectangle_discarded [where st = st and cr = cr
      and sp = "\<lparr>pos_x = Fin 200, pos_y = Fin 100\<rparr>" and cv = "Some half_size_canvas"
      and e = "mouse_at 112 120" and pos = "\<lparr>pos_x = Fin 204, pos_y = Fin 200\<rparr>" and now = 1000
      and evs = "[MouseDown (Some half_size_canvas) (mouse_at 110 70),
           MouseMove (Some half_size_canvas) (mouse_at 150 120),
           MouseUp (Some half_size_canvas) (mouse_at 150 120) 1000]"]
  from st have "isDrawing st" and "startPos st = Some \<lparr>pos_x = Fin 200, pos_y = Fin 100\<rparr>"
    and "currentRect st = Some cr"
    by simp_all
  with t u w have "handleMouseUp (Some half_size_canvas) (mouse_at 112 120) 1000 st
      = st\<lparr>isDrawing := False, startPos := None, currentRect := None\<rparr>"
    by blast
  moreover have "run [MouseDown (Some half_size_canvas) (mouse_at 110 70),
        MouseMove (Some half_size_canvas) (mouse_at 112 120),
        MouseUp (Some half_size_canvas) (mouse_at 112 120) 1000] initial_state
      = handleMouseUp (Some half_size_canvas) (mouse_at 112 120) 1000 st"
    by (simp add: st_def run_def)
  ultimately have a: "run [MouseDown (Some half_size_canvas) (mouse_at 110 70),
        MouseMove (Some half_size_canvas) (mouse_at 112 120),
        MouseUp (Some half_size_canvas) (mouse_at 112 120) 1000] initial_state = initial_state"
    by (simp add: st initial_state_def)
  from t have b: "list_all (\<lambda>r. js_gt (r_width r) (Fin 0) \<and> js_gt (r_height r) (Fin 0))
        (rectangles (run [MouseDown (Some half_size_canvas) (mouse_at 110 70),
           MouseMove (Some half_size_canvas) (mouse_at 150 120),
           MouseUp (Some half_size_canvas) (mouse_at 150 120) 1000] initial_state))"
    by (simp add: list_all_iff)
  have c: "length (rectangles (run [MouseDown (Some half_size_canvas) (mouse_at 110 70),
           MouseMove (Some half_size_canvas) (mouse_at 150 120),
           MouseUp (Some half_size_canvas) (mouse_at 150 120) 1000] initial_state)) = 1"
    by (simp add: ex_defs handler_defs)
  from a b c show ?thesis by blast
qed

section \<open>Identifiers\<close>

lemma sorted_wrt_filter_prefix:
  assumes "sorted_wrt R (map f rs @ ys)"
  shows "sorted_wrt R (map f (filter P rs) @ ys)"
proof -
  from assms have a: "sorted_wrt R (map f rs)" and b: "sorted_wrt R ys"
    and c: "\<forall>x \<in> set (map f rs). \<forall>y \<in> set ys. R x y"
    by (simp_all add: sorted_wrt_append)
  from a have "sorted_wrt (\<lambda>x y. R (f x) (f y)) rs" by (simp add: sorted_wrt_map)
  then have "sorted_wrt (\<lambda>x y. R (f x) (f y)) (filter P rs)" by (rule sorted_wrt_filter)
  then have "sorted_wrt R (map f (filter P rs))" by (simp add: sorted_wrt_map)
  with b c show ?thesis by (auto simp: sorted_wrt_append)
qed

lemma sorted_wrt_drop_clock:
  assumes "sorted_wrt R (xs @ clock (ev # evs))"
  shows "sorted_wrt R (xs @ clock evs)"
  using assms by (cases ev) (auto simp: sorted_wrt_append)

lemma sorted_wrt_drop_clock_pt:
  assumes "sorted_wrt R (xs @ clock_pt (ev # evs))"
  shows "sorted_wrt R (xs @ clock_pt evs)"
  using assms by (cases ev) (auto simp: sorted_wrt_append)

lemma step_ids_sorted:
  assumes "sorted_wrt R (map r_id (rectangles s) @ clock (ev # evs))"
  shows "sorted_wrt R (map r_id (rectangles (step ev s)) @ clock evs)"
proof -
  from assms have d: "sorted_wrt R (map r_id (rectangles s) @ clock evs)"
    by (rule sorted_wrt_drop_clock)
  from step_rectangles [of ev s] show ?thesis
  proof (elim disjE exE conjE)
    assume "rectangles (step ev s) = []"
    with d show ?thesis by (simp add: sorted_wrt_append)
  next
    fix P assume "rectangles (step ev s) = filter P (rectangles s)"
    with d show ?thesis by (simp add: sorted_wrt_filter_prefix)
  next
    fix r now cv e
    assume "ev = MouseUp cv e now" and "rectangles (step ev s) = rectangles s @ [r]" and "r_id r = now"
    with assms show ?thesis by simp
  qed
qed

lemma step_ref_ids_sorted:
  assumes "sorted_wrt R (map r_id (rectangles s) @ clock (ev # evs))"
  shows "sorted_wrt R (map r_id (rectangles (step_ref ev s)) @ clock evs)"
proof -
  from assms have d: "sorted_wrt R (map r_id (rectangles s) @ clock evs)"
    by (rule sorted_wrt_drop_clock)
  from step_ref_rectangles [of ev s] show ?thesis
  proof (elim disjE exE conjE)
    assume "rectangles (step_ref ev s) = []"
    with d show ?thesis by (simp add: sorted_wrt_append)
  next
    fix P assume "rectangles (step_ref ev s) = filter P (rectangles s)"
    with d show ?thesis by (simp add: sorted_wrt_filter_prefix)
  next
    fix r now cv e
    assume "ev = MouseUp cv e now" and "rectangles (step_ref ev s) = rectangles s @ [r]" and "r_id r = now"
    with assms show ?thesis by simp
  qed
qed

lemma step_pt_ids_sorted:
  assumes "sorted_wrt R (map sp_id (signaturePoints s) @ clock_pt (ev # evs))"
  shows "sorted_wrt R (map sp_id (signaturePoints (step_pt ev s)) @ clock_pt evs)"
proof -
  from assms have d: "sorted_wrt R (map sp_id (signaturePoints s) @ clock_pt evs)"
    by (rule sorted_wrt_drop_clock_pt)
  show ?thesis
  proof (cases ev)
    case (Click cv e now)
    from handleCanvasClick_points [of cv e now s] show ?thesis
    proof (elim disjE exE conjE)
      assume "signaturePoints (handleCanvasClick cv e now s) = signaturePoints s"
      with d Click show ?thesis by simp
    next
      fix p assume "signaturePoints (handleCanvasClick cv e now s) = signaturePoints s @ [p]"
        and "sp_id p = now"
      with assms Click show ?thesis by simp
    qed
  next
    case (GoToPage_pt n)
    with d show ?thesis by (simp add: goToPage_pt_def)
  next
    case ClearPage_pt
    with d show ?thesis by (simp add: handleClearPage_pt_def sorted_wrt_filter_prefix)
  next
    case (FileUpload_pt n)
    with d show ?thesis by (simp add: handleFileUpload_pt_def sorted_wrt_append)
  next
    case Home_pt
    with d show ?thesis by (simp add: handleHome_pt_def sorted_wrt_append)
  qed
qed

lemma run_ids_sorted:
  "sorted_wrt R (map r_id (rectangles s) @ clock evs) \<Longrightarrow>
   sorted_wrt R (map r_id (rectangles (run evs s)))"
proof (induction evs arbitrary: s)
  case Nil
  then show ?case by (simp add: run_Nil)
next
  case (Cons ev evs)
  from Cons.prems have "sorted_wrt R (map r_id (rectangles (step ev s)) @ clock evs)"
    by (rule step_ids_sorted)
  then have "sorted_wrt R (map r_id (rectangles (run evs (step ev s))))"
    by (rule Cons.IH)
  then show ?case by (simp add: run_Cons)
qed

lemma run_ref_ids_sorted:
  "sorted_wrt R (map r_id (rectangles s) @ clock evs) \<Longrightarrow>
   sorted_wrt R (map r_id (rectangles (run_ref evs s)))"
proof (induction evs arbitrary: s)
  case Nil
  then show ?case by (simp add: run_ref_def)
next
  case (Cons ev evs)
  from Cons.prems have "sorted_wrt R (map r_id (rectangles (step_ref ev s)) @ clock evs)"
    by (rule step_ref_ids_sorted)
  then have "sorted_wrt R (map r_id (rectangles (run_ref evs (step_ref ev s))))"
    by (rule Cons.IH)
  then show ?case by (simp add: run_ref_Cons)
qed

lemma run_pt_ids_sorted:
  "sorted_wrt R (map sp_id (signaturePoints s) @ clock_pt evs) \<Longrightarrow>
   sorted_wrt R (map sp_id (signaturePoints (run_pt evs s)))"
proof (induction evs arbitrary: s)
  case Nil
  then show ?case by (simp add: run_pt_def)
next
  case (Cons ev evs)
  from Cons.prems have "sorted_wrt R (map sp_id (signaturePoints (step_pt ev s)) @ clock_pt evs)"
    by (rule step_pt_ids_sorted)
  then have "sorted_wrt R (map sp_id (signaturePoints (run_pt evs (step_pt ev s))))"
    by (rule Cons.IH)
  then show ?case by (simp add: run_pt_Cons)
qed

text \<open>
  C8, as stated, fails on the code: the id is the reading of \<^verbatim>\<open>Date.now()\<close> at the
  commit. Two different rectangles committed at the same reading share their id, and a
  reading lower than an earlier one gives the later rectangle the smaller id.
\<close>

theorem commit_ids_counterexample:
  "map r_id (rectangles (run [MouseDown (Some half_size_canvas) (mouse_at 110 70),
                    MouseMove (Some half_size_canvas) (mouse_at 150 120),
                    MouseUp (Some half_size_canvas) (mouse_at 150 120) 1000,
                    MouseDown (Some half_size_canvas) (mouse_at 210 170),
                    MouseMove (Some half_size_canvas) (mouse_at 250 220),
                    MouseUp (Some half_size_canvas) (mouse_at 250 220) 1000] initial_state))
     = [1000, 1000]
   \<and> map r_x (rectangles (run [MouseDown (Some half_size_canvas) (mouse_at 110 70),
                    MouseMove (Some half_size_canvas) (mouse_at 150 120),
                    MouseUp (Some half_size_canvas) (mouse_at 150 120) 1000,
                    MouseDown (Some half_size_canvas) (mouse_at 210 170),
                    MouseMove (Some half_size_canvas) (mouse_at 250 220),
                    MouseUp (Some half_size_canvas) (mouse_at 250 220) 1000] initial_state))
     = [Fin 200, Fin 400]
   \<and> map r_id (rectangles (run [MouseDown (Some half_size_canvas) (mouse_at 110 70),
                    MouseMove (Some half_size_canvas) (mouse_at 150 120),
                    MouseUp (Some half_size_canvas) (mouse_at 150 120) 2000,
                    MouseDown (Some half_size_canvas) (mouse_at 210 170),
                    MouseMove (Some half_size_canvas) (mouse_at 250 220),
                    MouseUp (Some half_size_canvas) (mouse_at 250 220) 1000] initial_state))
     = [2000, 1000]"
  by (simp add: ex_defs handler_defs)

text \<open>
  C8, amended: in a session from the initial state, when the clock readings taken at the
  releases (at the clicks, for points) never decrease, the ids in the store never decrease
  in insertion order; when the readings strictly increase, the ids are pairwise distinct.
\<close>

theorem ids_follow_clock:
  "(sorted (clock evs) \<longrightarrow>
      sorted (map r_id (rectangles (run evs initial_state)))
      \<and> sorted (map r_id (rectangles (run_ref evs initial_state))))
   \<and> (sorted_wrt (<) (clock evs) \<longrightarrow>
      distinct (map r_id (rectangles (run evs initial_state)))
      \<and> distinct (map r_id (rectangles (run_ref evs initial_state))))
   \<and> (sorted (clock_pt pevs) \<longrightarrow>
      sorted (map sp_id (signaturePoints (run_pt pevs initial_pt_state))))
   \<and> (sorted_wrt (<) (clock_pt pevs) \<longrightarrow>
      distinct (map sp_id (signaturePoints (run_pt pevs initial_pt_state))))"
proof (intro conjI impI)
  assume "sorted (clock evs)"
  then show "sorted (map r_id (rectangles (run evs initial_state)))"
    using run_ids_sorted [of "(\<le>)" initial_state evs] by (simp add: initial_state_def)
next
  assume "sorted (clock evs)"
  then show "sorted (map r_id (rectangles (run_ref evs initial_state)))"
    using run_ref_ids_sorted [of "(\<le>)" initial_state evs] by (simp add: initial_state_def)
next
  assume "sorted_wrt (<) (clock evs)"
  then have "sorted_wrt (<) (map r_id (rectangles (run evs initial_state)))"
    using run_ids_sorted [of "(<)" initial_state evs] by (simp add: initial_state_def)
  then show "distinct (map r_id (rectangles (run evs initial_state)))"
    by (simp add: strict_sorted_iff)
next
  assume "sorted_wrt (<) (clock evs)"
  then have "sorted_wrt (<) (map r_id (rectangles (run_ref evs initial_state)))"
    using run_ref_ids_sorted [of "(<)" initial_state evs] by (simp add: initial_state_def)
  then show "distinct (map r_id (rectangles (run_ref evs initial_state)))"
    by (simp add: strict_sorted_iff)
next
  assume "sorted (clock_pt pevs)"
  then show "sorted (map sp_id (signaturePoints (run_pt pevs initial_pt_state)))"
    using run_pt_ids_sorted [of "(\<le>)" initial_pt_state pevs] by (simp add: initial_pt_state_def)
next
  assume "sorted_wrt (<) (clock_pt pevs)"
  then have "sorted_wrt (<) (map sp_id (signaturePoints (run_pt pevs initial_pt_state)))"
    using run_pt_ids_sorted [of "(<)" initial_pt_state pevs] by (simp add: initial_pt_state_def)
  then show "distinct (map sp_id (signaturePoints (run_pt pevs initial_pt_state)))"
    by (simp add: strict_sorted_iff)
qed

theorem ids_follow_clock_witness:
  "map r_id (rectangles (run [MouseDown (Some half_size_canvas) (mouse_at 110 70),
                    MouseMove (Some half_size_canvas) (mouse_at 150 120),
                    MouseUp (Some half_size_canvas) (mouse_at 150 120) 1000,
                    MouseDown (Some half_size_canvas) (mouse_at 210 170),
                    MouseMove (Some half_size_canvas) (mouse_at 250 220),
                    MouseUp (Some half_size_canvas) (mouse_at 250 220) 2000] initial_state))
     = [1000, 2000]
   \<and> distinct (map r_id (rectangles (run [MouseDown (Some half_size_canvas) (mouse_at 110 70),
                    MouseMove (Some half_size_canvas) (mouse_at 150 120),
                    MouseUp (Some half_size_canvas) (mouse_at 150 120) 1000,
                    MouseDown (Some half_size_canvas) (mouse_at 210 170),
                    MouseMove (Some half_size_canvas) (mouse_at 250 220),
                    MouseUp (Some half_size_canvas) (mouse_at 250 220) 2000] initial_state)))
   \<and> distinct (map sp_id (signaturePoints (run_pt
                   [Click (Some half_size_canvas) (mouse_at 110 70) 1000,
                    Click (Some half_size_canvas) (mouse_at 150 120) 2000] initial_pt_state)))"
  using ids_follow_clock [where evs = "[MouseDown (Some half_size_canvas) (mouse_at 110 70),
                    MouseMove (Some half_size_canvas) (mouse_at 150 120),
                    MouseUp (Some half_size_canvas) (mouse_at 150 120) 1000,
                    MouseDown (Some half_size_canvas) (mouse_at 210 170),
                    MouseMove (Some half_size_canvas) (mouse_at 250 220),
                    MouseUp (Some half_size_canvas) (mouse_at 250 220) 2000]"
      and pevs = "[Click (Some half_size_canvas) (mouse_at 110 70) 1000,
                    Click (Some half_size_canvas) (mouse_at 150 120) 2000]"]
  by (simp add: ex_defs handler_defs)

end
